theory Spec2Isabelle
  imports Main "HOL-Library.Sublist" "HOL-Library.Multiset" "HOL-Library.Word"
begin

section \<open>Provider names and the categorizer\<close>

text \<open>
  Provider names are Python strings. A name is modelled as a list of characters whose
  codes are code points below 256; on those, \<open>str.lower()\<close> moves \<open>A..Z\<close> and the
  upper-case letters \<open>0xC0..0xDE\<close> (but not the multiplication sign \<open>0xD7\<close>) up by 32
  and leaves every other character alone.
\<close>

definition lower_char :: "char \<Rightarrow> char" where
  "lower_char c =
     (let n = (of_char c :: nat)
      in if (65 \<le> n \<and> n \<le> 90) \<or> (192 \<le> n \<and> n \<le> 222 \<and> n \<noteq> 215)
         then char_of (n + 32) else c)"

definition lower :: "string \<Rightarrow> string" where
  "lower s = map lower_char s"

text \<open>Python's \<open>sub in s\<close> on strings: \<open>sub\<close> occurs in \<open>s\<close> as a contiguous block.\<close>

fun str_in :: "string \<Rightarrow> string \<Rightarrow> bool" where
  "str_in sub [] = (sub = [])"
| "str_in sub (c # cs) = (prefix sub (c # cs) \<or> str_in sub cs)"

text \<open>\<open>categorize_server\<close> of \<open>enhanced_mcp_agent.py\<close>, branch by branch.\<close>

definition categorize_server :: "string \<Rightarrow> string" where
  "categorize_server server_name =
     (let l = lower server_name in
      if str_in ''file'' l \<or> l = ''filesystem'' then ''filesystem''
      else if str_in ''duck'' l \<or> str_in ''search'' l \<or> str_in ''fire'' l \<or> str_in ''crawl'' l
        then ''search''
      else if str_in ''memory'' l \<or> str_in ''graph'' l then ''memory''
      else if str_in ''github'' l \<or> str_in ''git'' l then ''github''
      else if str_in ''brows'' l \<or> str_in ''play'' l then ''browser''
      else if str_in ''mail'' l \<or> str_in ''gmail'' l then ''email''
      else if str_in ''calendar'' l \<or> str_in ''outlook'' l then ''calendar''
      else if str_in ''airbnb'' l then ''airbnb''
      else if str_in ''eleven'' l then ''elevenlabs''
      else ''other'')"

text \<open>
  The categorizer as the specification words it: a fixed table of keyword sets, one per
  category, in the evaluation order filesystem, search, memory, code hosting (github),
  browser, email, calendar, the two specialty categories (airbnb, elevenlabs); the first
  category one of whose keywords occurs in the lower-cased name wins, and \<open>other\<close> is the
  default.
\<close>

definition keyword_table :: "(string \<times> string list) list" where
  "keyword_table =
     [(''filesystem'', [''file'']),
      (''search'', [''duck'', ''search'', ''fire'', ''crawl'']),
      (''memory'', [''memory'', ''graph'']),
      (''github'', [''github'', ''git'']),
      (''browser'', [''brows'', ''play'']),
      (''email'', [''mail'', ''gmail'']),
      (''calendar'', [''calendar'', ''outlook'']),
      (''airbnb'', [''airbnb'']),
      (''elevenlabs'', [''eleven''])]"

fun first_match :: "(string \<times> string list) list \<Rightarrow> string \<Rightarrow> string" where
  "first_match [] l = ''other''"
| "first_match ((cat, kws) # rest) l =
     (if list_ex (\<lambda>k. str_in k l) kws then cat else first_match rest l)"

definition categorize_spec :: "string \<Rightarrow> string" where
  "categorize_spec server_name = first_match keyword_table (lower server_name)"

definition categories :: "string list" where
  "categories = map fst keyword_table @ [''other'']"

section \<open>Priorities and the two schedulers\<close>

text \<open>\<open>get_server_priority\<close>: a dictionary lookup with default 100.\<close>

definition priorities :: "(string \<times> int) list" where
  "priorities =
     [(''filesystem'', 1), (''memory'', 2), (''search'', 3), (''github'', 4),
      (''browser'', 5), (''email'', 6), (''calendar'', 7), (''airbnb'', 8),
      (''elevenlabs'', 9), (''other'', 10)]"

definition get_server_priority :: "string \<Rightarrow> int" where
  "get_server_priority server_category =
     (case map_of priorities server_category of None \<Rightarrow> 100 | Some p \<Rightarrow> p)"

text \<open>
  The ordering step of \<open>initialize_agent\<close> (\<open>enhanced_mcp_agent.py\<close>): pair every name
  with its priority, sort the pairs by priority (Python's \<open>list.sort\<close> is stable, as is
  \<open>sort_key\<close>), and project the names.
\<close>

definition sorted_server_names :: "string list \<Rightarrow> string list" where
  "sorted_server_names server_names =
     map fst (sort_key snd
       (map (\<lambda>server_name. (server_name, get_server_priority (categorize_server server_name)))
          server_names))"

text \<open>
  The ordering step of \<open>process_all_servers\<close> (\<open>prepare_safe.py\<close>) and of
  \<open>initialize_mcp_servers\<close> (\<open>prepare_mcp_tools.py\<close>), which are the same text. One
  tier is a loop over a fixed list; its state is the pair of \<open>prioritized_servers\<close>
  and \<open>server_names_copy\<close>. \<open>list.remove\<close> deletes the first occurrence.
\<close>

definition high_priority :: "string list" where
  "high_priority = [''filesystem'', ''server-memory'']"

definition medium_priority :: "string list" where
  "medium_priority = [''mcp-server-firecrawl'', ''duckduckgo-mcp-server'', ''server-github'']"

fun add_tier :: "string list \<Rightarrow> string list \<times> string list \<Rightarrow> string list \<times> string list" where
  "add_tier [] (prioritized, copy) = (prioritized, copy)"
| "add_tier (name # rest) (prioritized, copy) =
     (if name \<in> set copy
      then add_tier rest (prioritized @ [name], remove1 name copy)
      else add_tier rest (prioritized, copy))"

definition prioritized_servers :: "string list \<Rightarrow> string list" where
  "prioritized_servers server_names =
     (case add_tier medium_priority (add_tier high_priority ([], server_names)) of
        (prioritized, copy) \<Rightarrow> prioritized @ copy)"

text \<open>
  The scheduler as the specification words it: the high-priority names present, in the
  order of that list, then the medium-priority names present, in the order of that list,
  then the remaining names sorted stably by the priority of their category.
\<close>

definition schedule_spec :: "string list \<Rightarrow> string list" where
  "schedule_spec names =
     filter (\<lambda>h. h \<in> set names) high_priority @
     filter (\<lambda>m. m \<in> set names) medium_priority @
     sort_key (\<lambda>n. get_server_priority (categorize_server n))
       (filter (\<lambda>n. n \<notin> set high_priority \<and> n \<notin> set medium_priority) names)"


section \<open>Tool schemas\<close>

text \<open>
  A tool's parameter schema is an open, nested structure that the code only passes on.
  It is modelled as a JSON value as Python holds it: an integer is unbounded, a float is
  a double, given by its 64 bits.
\<close>

datatype json = JNull | JBool bool | JInt int | JFloat "64 word" | JStr string
  | JArr "json list" | JObj "(string \<times> json) list"

text \<open>
  A tool object as the toolset library hands it over: each attribute may be absent.
  The schema dictionary built from it has the keys \<open>name\<close>, \<open>description\<close> and
  \<open>parameters\<close>.
\<close>

record remote_tool =
  attr_name :: "string option"
  attr_description :: "string option"
  attr_parameters :: "json option"

record tool_schema =
  schema_name :: string
  schema_description :: string
  schema_parameters :: json

text \<open>
  The body of the loop over \<open>tools\<close> in \<open>connect_to_mcp_server\<close>
  (\<open>prepare_mcp_tools.py\<close>): a tool without a \<open>name\<close> raises inside the inner
  \<open>try\<close> and is skipped; a missing description is the empty string and missing
  parameters are the empty dictionary.
\<close>

definition to_schema :: "remote_tool \<Rightarrow> tool_schema option" where
  "to_schema tool =
     (case attr_name tool of
        None \<Rightarrow> None
      | Some n \<Rightarrow>
          Some \<lparr>schema_name = n,
                schema_description = (case attr_description tool of None \<Rightarrow> [] | Some d \<Rightarrow> d),
                schema_parameters = (case attr_parameters tool of None \<Rightarrow> JObj [] | Some p \<Rightarrow> p)\<rparr>)"

definition tool_schemas :: "remote_tool list \<Rightarrow> tool_schema list" where
  "tool_schemas tools = List.map_filter to_schema tools"

section \<open>The configuration file\<close>

datatype py_error = AttributeError | TypeError | KeyError | OSError | RuntimeError

text \<open>
  One entry of \<open>mcpServers\<close>, the \<open>server_config\<close> of the connectors: a dictionary
  in which the keys \<open>command\<close> and \<open>args\<close> may each be missing, or a JSON value
  that is not a dictionary. \<open>connection_params\<close> is the evaluation of
  \<open>server_config['command']\<close> and then of \<open>server_config['args']\<close>: subscripting a
  value that is not a dictionary with a string is a \<open>TypeError\<close>, a missing key a
  \<open>KeyError\<close>. A key that holds a value of the wrong type does not raise here; it
  shows as a provider that cannot be started.
\<close>

datatype server_config = Spec "string option" "string list option" | Not_a_dict

definition connection_params :: "server_config \<Rightarrow> py_error + string \<times> string list" where
  "connection_params server_config =
     (case server_config of
        Not_a_dict \<Rightarrow> Inl TypeError
      | Spec None args \<Rightarrow> Inl KeyError
      | Spec (Some command) None \<Rightarrow> Inl KeyError
      | Spec (Some command) (Some args) \<Rightarrow> Inr (command, args))"

text \<open>
  The value of \<open>config.get('mcpServers', {})\<close> when \<open>config\<close> is a dictionary: a
  dictionary of entries (the empty one when the key is missing), \<open>null\<close>, a number or
  truth value, an array, or a string.
\<close>

datatype members =
    Dict "(string \<times> server_config) list"
  | Null
  | Scalar
  | Array "json list"
  | Text string

text \<open>
  The configuration as \<open>load_mcp_config\<close> returns it: the empty configuration when
  the file is missing or is not JSON, and otherwise the decoded value, which is a
  dictionary or not. On a value that is not a dictionary, \<open>config.get\<close> raises.
\<close>

datatype config_file = Unreadable | Not_an_object | Object members

definition mcpServers :: "config_file \<Rightarrow> py_error + members" where
  "mcpServers config =
     (case config of
        Unreadable \<Rightarrow> Inr (Dict [])
      | Not_an_object \<Rightarrow> Inl AttributeError
      | Object v \<Rightarrow> Inr v)"

text \<open>
  The three operations the code applies to that value. \<open>list(v.keys())\<close> needs a
  dictionary. \<open>name in v\<close> is key membership on a dictionary, element membership on an
  array, the substring test on a string, and a \<open>TypeError\<close> on \<open>null\<close>, a number or
  a truth value. \<open>v[name]\<close> with a string \<open>name\<close> is a \<open>TypeError\<close> on
  everything but a dictionary.
\<close>

definition keys :: "members \<Rightarrow> py_error + string list" where
  "keys v =
     (case v of
        Dict m \<Rightarrow> Inr (map fst m)
      | Null \<Rightarrow> Inl AttributeError
      | Scalar \<Rightarrow> Inl AttributeError
      | Array xs \<Rightarrow> Inl AttributeError
      | Text s \<Rightarrow> Inl AttributeError)"

definition contains :: "members \<Rightarrow> string \<Rightarrow> py_error + bool" where
  "contains v name =
     (case v of
        Dict m \<Rightarrow> Inr (name \<in> fst ` set m)
      | Null \<Rightarrow> Inl TypeError
      | Scalar \<Rightarrow> Inl TypeError
      | Array xs \<Rightarrow> Inr (JStr name \<in> set xs)
      | Text s \<Rightarrow> Inr (str_in name s))"

definition getitem :: "members \<Rightarrow> string \<Rightarrow> py_error + server_config" where
  "getitem v name =
     (case v of
        Dict m \<Rightarrow> (case map_of m name of None \<Rightarrow> Inl KeyError | Some c \<Rightarrow> Inr c)
      | Null \<Rightarrow> Inl TypeError
      | Scalar \<Rightarrow> Inl TypeError
      | Array xs \<Rightarrow> Inl TypeError
      | Text s \<Rightarrow> Inl TypeError)"

text \<open>
  The comprehension \<open>[name for name in server_names if name in config.get('mcpServers', {})]\<close>:
  it stops at the first membership test that raises.
\<close>

fun filter_in :: "members \<Rightarrow> string list \<Rightarrow> py_error + string list" where
  "filter_in v [] = Inr []"
| "filter_in v (name # rest) =
     (case contains v name of
        Inl e \<Rightarrow> Inl e
      | Inr present \<Rightarrow>
          (case filter_in v rest of
             Inl e \<Rightarrow> Inl e
           | Inr found \<Rightarrow> Inr (if present then name # found else found)))"

text \<open>
  The first lines of \<open>process_all_servers\<close> and of \<open>initialize_mcp_servers\<close>: no request
  (\<open>None\<close> or the empty list) means every configured server; otherwise the requested
  names that the configuration defines, in the order requested.
\<close>

definition resolve :: "members \<Rightarrow> string list option \<Rightarrow> py_error + string list" where
  "resolve v server_names =
     (case server_names of
        None \<Rightarrow> keys v
      | Some [] \<Rightarrow> keys v
      | Some (n # ns) \<Rightarrow> filter_in v (n # ns))"

section \<open>The provider connector\<close>

text \<open>
  What \<open>MCPToolset.from_server\<close> under \<open>asyncio.wait_for\<close> can do: return the tools
  of an established session, run into the 30 second timeout (the flag says whether the
  provider's subprocess had been started by then), or raise another exception: the
  process could not be started, the started process answered the handshake with
  something malformed, or the started process ended and the library raised.
\<close>

datatype from_server_result =
    Connected "remote_tool list"
  | TimeoutError bool
  | Refused
  | ProtocolError
  | Terminated

text \<open>
  \<open>from_server\<close> enters the subprocess and its channel on the \<open>AsyncExitStack\<close> it is
  given as soon as the process is started; they stay there until \<open>aclose\<close> is called on
  that stack. The stack is modelled as the list of providers whose subprocess it holds.
\<close>

definition entered :: "from_server_result \<Rightarrow> bool" where
  "entered r =
     (case r of
        Connected tools \<Rightarrow> True
      | TimeoutError started \<Rightarrow> started
      | Refused \<Rightarrow> False
      | ProtocolError \<Rightarrow> True
      | Terminated \<Rightarrow> True)"

text \<open>
  \<open>aclose\<close> takes every exit callback off the stack and runs it. One of them may
  raise; the others are run all the same and the exception is raised at the end, so the
  stack is empty afterwards in both cases. Whether a callback raises is the provider's
  doing and is given by the flag.
\<close>

definition aclose :: "bool \<Rightarrow> string list \<Rightarrow> py_error option \<times> string list" where
  "aclose raises exit_stack = (if raises then Some RuntimeError else None, [])"

text \<open>
  One connection as the provider makes it happen: what \<open>from_server\<close> does, and
  whether closing the stack raises.
\<close>

record attempt =
  response :: from_server_result
  close_raises :: bool

datatype log_level = INFO | WARNING | ERROR

record connect_result =
  returned :: "tool_schema list"
  still_open :: "string list"
  logged :: "log_level list"

text \<open>
  \<open>connect_to_mcp_server\<close> of \<open>prepare_mcp_tools.py\<close>; \<open>logged\<close> lists the levels
  of the messages written after the connection was tried, in order. Everything happens
  inside the outer \<open>try\<close>. An entry without \<open>command\<close> or \<open>args\<close> raises before
  a stack exists. The timeout handler logs a warning, closes the stack and returns the
  empty list. The success path builds the schemas (logging an error for each tool it
  skips), logs the tools, closes the stack and returns the schemas. Every other
  exception, also one raised by \<open>aclose\<close> on one of these two paths, is caught by
  the outer handler, which logs an error and returns the empty list without closing
  anything.
\<close>

definition connect_to_mcp_server :: "string \<Rightarrow> server_config \<Rightarrow> attempt \<Rightarrow> connect_result" where
  "connect_to_mcp_server server_name server_config a =
     (case connection_params server_config of
        Inl e \<Rightarrow> \<lparr>returned = [], still_open = [], logged = [ERROR]\<rparr>
      | Inr params \<Rightarrow>
          let exit_stack = (if entered (response a) then [server_name] else [])
          in case response a of
               TimeoutError started \<Rightarrow>
                 (case aclose (close_raises a) exit_stack of
                    (Some e, closed) \<Rightarrow>
                      \<lparr>returned = [], still_open = closed, logged = [WARNING, ERROR]\<rparr>
                  | (None, closed) \<Rightarrow>
                      \<lparr>returned = [], still_open = closed, logged = [WARNING]\<rparr>)
             | Connected tools \<Rightarrow>
                 (let skipped = map (\<lambda>tool. ERROR) (filter (\<lambda>tool. to_schema tool = None) tools)
                  in case aclose (close_raises a) exit_stack of
                       (Some e, closed) \<Rightarrow>
                         \<lparr>returned = [], still_open = closed, logged = skipped @ [INFO, ERROR]\<rparr>
                     | (None, closed) \<Rightarrow>
                         \<lparr>returned = tool_schemas tools, still_open = closed,
                          logged = skipped @ [INFO]\<rparr>)
             | Refused \<Rightarrow> \<lparr>returned = [], still_open = exit_stack, logged = [ERROR]\<rparr>
             | ProtocolError \<Rightarrow> \<lparr>returned = [], still_open = exit_stack, logged = [ERROR]\<rparr>
             | Terminated \<Rightarrow> \<lparr>returned = [], still_open = exit_stack, logged = [ERROR]\<rparr>)"

text \<open>
  \<open>connect_to_mcp_server\<close> of \<open>prepare_safe.py\<close> writes a temporary script, runs it
  in a worker process and waits for it. What the parent meets: whether the temporary
  script could be opened, whether its text could then be written, whether the worker
  process could be started, and, when its wait loop has ended, whether the worker is
  still running (\<open>process.poll() is None\<close>), whether a running worker ends on
  \<open>terminate\<close> within the two seconds granted, and the result file: absent, present
  but unreadable, or holding a list. The parent does not look into the elements of that
  list, so their type is left open.
\<close>

record 't observation =
  script_opened :: bool
  script_written :: bool
  worker_started :: bool
  still_running :: bool
  heeds_terminate :: bool
  result_file :: "'t list option option"

datatype worker_state = Running | Exited | Terminated_by_parent | Killed_by_parent

record 't safe_result =
  tools_read :: "'t list"
  worker :: worker_state
  safe_logged :: "log_level list"

text \<open>
  Nothing before the wait loop is inside a \<open>try\<close>: a script that cannot be opened
  is an \<open>OSError\<close>; the text of the script is then built from
  \<open>server_config['command']\<close> and \<open>server_config['args']\<close>; writing it can
  fail with an \<open>OSError\<close>; and \<open>subprocess.Popen\<close> raises an \<open>OSError\<close>
  when the worker cannot be started. After the loop a worker that is still running is
  terminated, and killed if that does not end it; then the result file is read.
\<close>

definition connect_to_mcp_server_safe ::
  "server_config \<Rightarrow> 't observation \<Rightarrow> py_error + 't safe_result" where
  "connect_to_mcp_server_safe server_config obs =
     (if \<not> script_opened obs then Inl OSError
      else case connection_params server_config of
             Inl e \<Rightarrow> Inl e
           | Inr params \<Rightarrow>
               if \<not> script_written obs then Inl OSError
               else if \<not> worker_started obs then Inl OSError
               else
                 let w = (if still_running obs
                          then (if heeds_terminate obs then Terminated_by_parent
                                else Killed_by_parent)
                          else Exited);
                     warned = (if still_running obs then [WARNING] else [])
                 in case result_file obs of
                      Some (Some tools) \<Rightarrow>
                        Inr \<lparr>tools_read = tools, worker = w, safe_logged = warned @ [INFO]\<rparr>
                    | Some None \<Rightarrow>
                        Inr \<lparr>tools_read = [], worker = w, safe_logged = warned @ [ERROR]\<rparr>
                    | None \<Rightarrow>
                        Inr \<lparr>tools_read = [], worker = w, safe_logged = warned @ [ERROR]\<rparr>)"

section \<open>Aggregation and the cache file\<close>

text \<open>
  \<open>all_tools\<close> is a Python dictionary: an assignment to a key that is present replaces
  the value in place, and a new key goes to the end.
\<close>

type_synonym 't tool_cache = "(string \<times> 't list) list"

fun dict_set :: "('k \<times> 'v) list \<Rightarrow> 'k \<Rightarrow> 'v \<Rightarrow> ('k \<times> 'v) list" where
  "dict_set [] k v = [(k, v)]"
| "dict_set ((k', v') # d) k v = (if k' = k then (k, v) # d else (k', v') # dict_set d k v)"

text \<open>
  The loop over \<open>prioritized_servers\<close> in \<open>initialize_mcp_servers\<close>
  (\<open>prepare_mcp_tools.py\<close>). \<open>env i server_name\<close> is what the provider does at the
  \<open>i\<close>-th connection of the run. The entry is fetched with
  \<open>config['mcpServers'][server_name]\<close>, outside any \<open>try\<close>; a provider is recorded
  only when the list returned is not empty.
\<close>

fun collect_tools ::
  "members \<Rightarrow> (nat \<Rightarrow> string \<Rightarrow> attempt) \<Rightarrow> nat \<Rightarrow> string list \<Rightarrow> tool_schema tool_cache \<Rightarrow>
   py_error + tool_schema tool_cache" where
  "collect_tools v env i [] all_tools = Inr all_tools"
| "collect_tools v env i (server_name # rest) all_tools =
     (case getitem v server_name of
        Inl e \<Rightarrow> Inl e
      | Inr server_config \<Rightarrow>
          let tools = returned (connect_to_mcp_server server_name server_config (env i server_name))
          in collect_tools v env (Suc i) rest
               (if tools \<noteq> [] then dict_set all_tools server_name tools else all_tools))"

text \<open>
  The same loop in \<open>process_all_servers\<close> (\<open>prepare_safe.py\<close>): it first skips a
  name that the configuration does not define, and an exception of its connector leaves
  the loop and the function.
\<close>

fun collect_tools_safe ::
  "members \<Rightarrow> (nat \<Rightarrow> string \<Rightarrow> 't observation) \<Rightarrow> nat \<Rightarrow> string list \<Rightarrow> 't tool_cache \<Rightarrow>
   py_error + 't tool_cache" where
  "collect_tools_safe v env i [] all_tools = Inr all_tools"
| "collect_tools_safe v env i (server_name # rest) all_tools =
     (case contains v server_name of
        Inl e \<Rightarrow> Inl e
      | Inr False \<Rightarrow> collect_tools_safe v env i rest all_tools
      | Inr True \<Rightarrow>
          (case getitem v server_name of
             Inl e \<Rightarrow> Inl e
           | Inr server_config \<Rightarrow>
               (case connect_to_mcp_server_safe server_config (env i server_name) of
                  Inl e \<Rightarrow> Inl e
                | Inr res \<Rightarrow>
                    let tools = tools_read res
                    in collect_tools_safe v env (Suc i) rest
                         (if tools \<noteq> [] then dict_set all_tools server_name tools
                          else all_tools))))"

text \<open>
  Aggregation of a result sequence, as the specification names it: the same loop over
  pairs of a provider and the list it returned.
\<close>

fun aggregate :: "('k \<times> 't list) list \<Rightarrow> ('k \<times> 't list) list \<Rightarrow> ('k \<times> 't list) list" where
  "aggregate [] all_tools = all_tools"
| "aggregate ((server_name, tools) # rest) all_tools =
     aggregate rest (if tools \<noteq> [] then dict_set all_tools server_name tools else all_tools)"

text \<open>
  Saving the cache: \<open>open(TOOL_CACHE_FILE, 'w')\<close> empties the file, then \<open>json.dump\<close>
  writes the encoding piece by piece. The encoder belongs to Python's library and is a
  parameter (\<open>dumps\<close> gives the pieces in the order in which they reach the file). The step can fail when
  the file is opened or after some pieces have been written; the handler only logs. A
  file is its content, or \<open>None\<close> when it does not exist. \<open>write_trace\<close> lists the
  successive contents of the file, the content before the step first.
\<close>

datatype write_fault = No_fault | Open_fails | Dump_fails nat

definition write_trace :: "string list \<Rightarrow> write_fault \<Rightarrow> string option \<Rightarrow> string option list" where
  "write_trace chunks fault old =
     (case fault of
        Open_fails \<Rightarrow> [old]
      | No_fault \<Rightarrow> old # map (\<lambda>j. Some (concat (take j chunks))) [0..<Suc (length chunks)]
      | Dump_fails k \<Rightarrow>
          old # map (\<lambda>j. Some (concat (take j chunks))) [0..<Suc (min k (length chunks))])"



text \<open>
  A preparation run: what it returns (or the exception that leaves it), the successive
  contents of the cache file during the run, and the level of the message about the
  save, when the run came to the save: information when it completed, an error when it
  failed.
\<close>

record 't run =
  outcome :: "py_error + 't tool_cache"
  cache_trace :: "string option list"
  save_report :: "log_level option"

text \<open>
  The last step of both functions, \<open>try: with open(TOOL_CACHE_FILE, 'w') as f:
  json.dump(all_tools, f, indent=2)\<close> with its handler, and the \<open>return all_tools\<close>
  that follows it in either case.
\<close>

definition save_tool_cache :: "'t tool_cache \<Rightarrow> ('t tool_cache \<Rightarrow> string list) \<Rightarrow> write_fault \<Rightarrow>
    string option \<Rightarrow> 't run" where
  "save_tool_cache all_tools dumps fault old =
     \<lparr>outcome = Inr all_tools,
      cache_trace = write_trace (dumps all_tools) fault old,
      save_report = Some (case fault of No_fault \<Rightarrow> INFO | Open_fails \<Rightarrow> ERROR
                          | Dump_fails k \<Rightarrow> ERROR)\<rparr>"

definition initialize_mcp_servers ::
  "config_file \<Rightarrow> string list option \<Rightarrow> (nat \<Rightarrow> string \<Rightarrow> attempt) \<Rightarrow>
   (tool_schema tool_cache \<Rightarrow> string list) \<Rightarrow> write_fault \<Rightarrow> string option \<Rightarrow> tool_schema run" where
  "initialize_mcp_servers config server_names env dumps fault old =
     (case mcpServers config of
        Inl e \<Rightarrow> \<lparr>outcome = Inl e, cache_trace = [old], save_report = None\<rparr>
      | Inr v \<Rightarrow>
          (case resolve v server_names of
             Inl e \<Rightarrow> \<lparr>outcome = Inl e, cache_trace = [old], save_report = None\<rparr>
           | Inr names \<Rightarrow>
               if names = [] then \<lparr>outcome = Inr [], cache_trace = [old], save_report = None\<rparr>
               else
                 (case collect_tools v env 0 (prioritized_servers names) [] of
                    Inl e \<Rightarrow> \<lparr>outcome = Inl e, cache_trace = [old], save_report = None\<rparr>
                  | Inr all_tools \<Rightarrow> save_tool_cache all_tools dumps fault old)))"

definition process_all_servers ::
  "config_file \<Rightarrow> string list option \<Rightarrow> (nat \<Rightarrow> string \<Rightarrow> 't observation) \<Rightarrow>
   ('t tool_cache \<Rightarrow> string list) \<Rightarrow> write_fault \<Rightarrow> string option \<Rightarrow> 't run" where
  "process_all_servers config server_names env dumps fault old =
     (case mcpServers config of
        Inl e \<Rightarrow> \<lparr>outcome = Inl e, cache_trace = [old], save_report = None\<rparr>
      | Inr v \<Rightarrow>
          (case resolve v server_names of
             Inl e \<Rightarrow> \<lparr>outcome = Inl e, cache_trace = [old], save_report = None\<rparr>
           | Inr names \<Rightarrow>
               if names = [] then \<lparr>outcome = Inr [], cache_trace = [old], save_report = None\<rparr>
               else
                 (case collect_tools_safe v env 0 (prioritized_servers names) [] of
                    Inl e \<Rightarrow> \<lparr>outcome = Inl e, cache_trace = [old], save_report = None\<rparr>
                  | Inr all_tools \<Rightarrow> save_tool_cache all_tools dumps fault old)))"

definition cache_after :: "'t run \<Rightarrow> string option" where
  "cache_after r = last (cache_trace r)"

section \<open>The launcher: retries and the fallback agent\<close>













section \<open>Facts about the categorizer\<close>

lemma str_in_iff: "str_in sub s \<longleftrightarrow> (\<exists>p q. s = p @ sub @ q)"
proof (induction s)
  case Nil
  then show ?case by auto
next
  case (Cons c cs)
  show ?case
  proof
    assume "str_in sub (c # cs)"
    then consider "prefix sub (c # cs)" | "str_in sub cs" by auto
    then show "\<exists>p q. c # cs = p @ sub @ q"
    proof cases
      case 1
      then obtain q where "c # cs = sub @ q" by (auto simp: prefix_def)
      then have "c # cs = [] @ sub @ q" by simp
      then show ?thesis by blast
    next
      case 2
      with Cons.IH obtain p q where "cs = p @ sub @ q" by blast
      then have "c # cs = (c # p) @ sub @ q" by simp
      then show ?thesis by blast
    qed
  next
    assume "\<exists>p q. c # cs = p @ sub @ q"
    then obtain p q where pq: "c # cs = p @ sub @ q" by blast
    show "str_in sub (c # cs)"
    proof (cases p)
      case Nil
      with pq have "prefix sub (c # cs)" by (simp add: prefix_def)
      then show ?thesis by simp
    next
      case (Cons a p')
      with pq have "cs = p' @ sub @ q" by simp
      with Cons.IH have "str_in sub cs" by blast
      then show ?thesis by simp
    qed
  qed
qed

lemma lower_char_idem: "lower_char (lower_char c) = lower_char c"
proof -
  let ?n = "of_char c :: nat"
  show ?thesis
  proof (cases "(65 \<le> ?n \<and> ?n \<le> 90) \<or> (192 \<le> ?n \<and> ?n \<le> 222 \<and> ?n \<noteq> 215)")
    case True
    then have "?n + 32 < 256" by auto
    then have e: "(of_char (char_of (?n + 32) :: char) :: nat) = ?n + 32"
      by (simp add: of_char_of)
    have l: "lower_char c = char_of (?n + 32)"
      using True by (simp add: lower_char_def Let_def)
    have "\<not> ((65 \<le> ?n + 32 \<and> ?n + 32 \<le> 90) \<or> (192 \<le> ?n + 32 \<and> ?n + 32 \<le> 222 \<and> ?n + 32 \<noteq> 215))"
      using True by auto
    then have "lower_char (char_of (?n + 32)) = char_of (?n + 32)"
      unfolding lower_char_def Let_def e by simp
    with l show ?thesis by simp
  next
    case False
    have "lower_char c = (if (65 \<le> ?n \<and> ?n \<le> 90) \<or> (192 \<le> ?n \<and> ?n \<le> 222 \<and> ?n \<noteq> 215)
         then char_of (?n + 32) else c)" by (simp add: lower_char_def Let_def)
    also have "\<dots> = c" by (simp only: False if_False)
    finally have "lower_char c = c" .
    then show ?thesis by simp
  qed
qed

lemma lower_idem: "lower (lower s) = lower s"
  by (simp add: lower_def lower_char_idem)

lemma first_match_first:
  "i < length tbl \<Longrightarrow> list_ex (\<lambda>k. str_in k l) (snd (tbl ! i)) \<Longrightarrow>
   \<forall>j<i. \<not> list_ex (\<lambda>k. str_in k l) (snd (tbl ! j)) \<Longrightarrow>
   first_match tbl l = fst (tbl ! i)"
proof (induction tbl arbitrary: i)
  case Nil
  then show ?case by simp
next
  case (Cons e tbl)
  obtain cat kws where e: "e = (cat, kws)" by (cases e)
  show ?case
  proof (cases i)
    case 0
    with Cons.prems e show ?thesis by simp
  next
    case (Suc i')
    from Cons.prems(3) Suc have no: "\<not> list_ex (\<lambda>k. str_in k l) kws"
      using e by force
    have "first_match tbl l = fst (tbl ! i')"
    proof (rule Cons.IH)
      show "i' < length tbl" using Cons.prems(1) Suc by simp
      show "list_ex (\<lambda>k. str_in k l) (snd (tbl ! i'))" using Cons.prems(2) Suc by simp
      show "\<forall>j<i'. \<not> list_ex (\<lambda>k. str_in k l) (snd (tbl ! j))"
      proof (intro allI impI)
        fix j assume "j < i'"
        then have "Suc j < i" using Suc by simp
        with Cons.prems(3) have "\<not> list_ex (\<lambda>k. str_in k l) (snd ((e # tbl) ! Suc j))" by blast
        then show "\<not> list_ex (\<lambda>k. str_in k l) (snd (tbl ! j))" by simp
      qed
    qed
    with no e Suc show ?thesis by simp
  qed
qed

lemma first_match_none:
  "\<forall>e\<in>set tbl. \<not> list_ex (\<lambda>k. str_in k l) (snd e) \<Longrightarrow> first_match tbl l = ''other''"
  by (induction tbl l rule: first_match.induct) auto

lemma first_match_range: "first_match tbl l \<in> set (map fst tbl @ [''other''])"
  by (induction tbl l rule: first_match.induct) auto

lemma categorize_server_spec: "categorize_server n = categorize_spec n"
  unfolding categorize_server_def categorize_spec_def keyword_table_def Let_def
  by simp

lemma categorize_server_lower: "categorize_server (lower n) = categorize_server n"
  by (simp add: categorize_server_def lower_idem)

text \<open>
  Claim C8. The categorizer is a total function into the ten fixed categories. It is
  the first-match search through the keyword table, in the order filesystem, search,
  memory, github, browser, email, calendar, airbnb, elevenlabs: the category of the
  first entry one of whose keywords occurs as a contiguous block in the lower-cased name
  is returned whatever later entries match, and \<open>other\<close> when no keyword occurs. Names
  that agree after lower-casing get the same category. (As a function of the name alone
  it gives the same category on every call.)
\<close>

theorem categorize_server_first_match:
  "categorize_server n \<in> set categories \<and>
   categorize_server n = first_match keyword_table (lower n) \<and>
   (\<forall>i<length keyword_table.
      list_ex (\<lambda>k. str_in k (lower n)) (snd (keyword_table ! i)) \<and>
      (\<forall>j<i. \<not> list_ex (\<lambda>k. str_in k (lower n)) (snd (keyword_table ! j))) \<longrightarrow>
      categorize_server n = fst (keyword_table ! i)) \<and>
   ((\<forall>e\<in>set keyword_table. \<not> list_ex (\<lambda>k. str_in k (lower n)) (snd e)) \<longrightarrow>
      categorize_server n = ''other'') \<and>
   (\<forall>k s. str_in k s \<longleftrightarrow> (\<exists>p q. s = p @ k @ q)) \<and>
   (lower a = lower b \<longrightarrow> categorize_server a = categorize_server b)"
proof -
  have eq: "categorize_server n = first_match keyword_table (lower n)"
    using categorize_server_spec by (simp add: categorize_spec_def)
  have rng: "categorize_server n \<in> set categories"
    unfolding eq categories_def by (rule first_match_range)
  have first: "\<forall>i<length keyword_table.
      list_ex (\<lambda>k. str_in k (lower n)) (snd (keyword_table ! i)) \<and>
      (\<forall>j<i. \<not> list_ex (\<lambda>k. str_in k (lower n)) (snd (keyword_table ! j))) \<longrightarrow>
      categorize_server n = fst (keyword_table ! i)"
    unfolding eq using first_match_first by blast
  have none: "(\<forall>e\<in>set keyword_table. \<not> list_ex (\<lambda>k. str_in k (lower n)) (snd e)) \<longrightarrow>
      categorize_server n = ''other''"
    unfolding eq using first_match_none by blast
  have sub: "\<forall>k s. str_in k s \<longleftrightarrow> (\<exists>p q. s = p @ k @ q)"
    using str_in_iff by blast
  have ci: "lower a = lower b \<longrightarrow> categorize_server a = categorize_server b"
    by (metis categorize_server_lower)
  from rng eq first none sub ci show ?thesis by blast
qed

theorem categorize_server_first_match_witness:
  "str_in ''file'' (lower ''File-Search'') \<and> str_in ''search'' (lower ''File-Search'') \<and>
   categorize_server ''File-Search'' = ''filesystem'' \<and>
   lower ''GMAIL'' = lower ''gmail'' \<and> categorize_server ''GMAIL'' = categorize_server ''gmail'' \<and>
   categorize_server ''xyz'' = ''other''"
proof -
  have l: "lower ''GMAIL'' = lower ''gmail''" by code_simp
  have f: "0 < length keyword_table" by (simp add: keyword_table_def)
  have m: "list_ex (\<lambda>k. str_in k (lower ''File-Search'')) (snd (keyword_table ! 0)) \<and>
      (\<forall>j<(0::nat). \<not> list_ex (\<lambda>k. str_in k (lower ''File-Search'')) (snd (keyword_table ! j)))"
    by code_simp
  have o: "\<forall>e\<in>set keyword_table. \<not> list_ex (\<lambda>k. str_in k (lower ''xyz'')) (snd e)"
    by code_simp
  have a: "str_in ''file'' (lower ''File-Search'')" by code_simp
  have b: "str_in ''search'' (lower ''File-Search'')" by code_simp
  have 1: "categorize_server ''File-Search'' = ''filesystem''"
    using categorize_server_first_match [of "''File-Search''" "''GMAIL''" "''gmail''"] f m
    by (simp add: keyword_table_def)
  have 2: "categorize_server ''GMAIL'' = categorize_server ''gmail''"
    using categorize_server_first_match [of "''GMAIL''" "''GMAIL''" "''gmail''"] l by blast
  have 3: "categorize_server ''xyz'' = ''other''"
    using categorize_server_first_match [of "''xyz''" "''GMAIL''" "''gmail''"] o by blast
  from a b 1 l 2 3 show ?thesis by blast
qed

section \<open>Facts about the schedulers\<close>

lemma add_tier_mset:
  "add_tier tier (p, c) = (p', c') \<Longrightarrow> mset p' + mset c' = mset p + mset c"
proof (induction tier arbitrary: p c)
  case Nil
  then show ?case by simp
next
  case (Cons name rest)
  show ?case
  proof (cases "name \<in> set c")
    case True
    with Cons.prems have "add_tier rest (p @ [name], remove1 name c) = (p', c')" by simp
    from Cons.IH [OF this] True show ?thesis by simp
  next
    case False
    with Cons.prems have "add_tier rest (p, c) = (p', c')" by simp
    from Cons.IH [OF this] show ?thesis .
  qed
qed

lemma prioritized_servers_mset: "mset (prioritized_servers names) = mset names"
proof -
  obtain p1 c1 where 1: "add_tier high_priority ([], names) = (p1, c1)"
    by (cases "add_tier high_priority ([], names)")
  obtain p2 c2 where 2: "add_tier medium_priority (p1, c1) = (p2, c2)"
    by (cases "add_tier medium_priority (p1, c1)")
  from add_tier_mset [OF 1] have "mset p1 + mset c1 = mset names" by simp
  moreover from add_tier_mset [OF 2] have "mset p2 + mset c2 = mset p1 + mset c1" .
  ultimately have "mset (p2 @ c2) = mset names" by simp
  then show ?thesis by (simp add: prioritized_servers_def 1 2)
qed

lemma filter_neq_id: "x \<notin> set c \<Longrightarrow> filter (\<lambda>n. n \<noteq> x) c = c"
  by (induction c) auto

lemma remove1_distinct_filter: "distinct c \<Longrightarrow> remove1 x c = filter (\<lambda>n. n \<noteq> x) c"
  by (induction c) (auto simp: filter_neq_id)

lemma add_tier_distinct:
  "distinct tier \<Longrightarrow> distinct c \<Longrightarrow>
   add_tier tier (p, c) = (p @ filter (\<lambda>t. t \<in> set c) tier, filter (\<lambda>n. n \<notin> set tier) c)"
proof (induction tier arbitrary: p c)
  case Nil
  then show ?case by simp
next
  case (Cons name rest)
  from Cons.prems have d: "distinct rest" and nr: "name \<notin> set rest" by auto
  show ?case
  proof (cases "name \<in> set c")
    case True
    have dc: "distinct (remove1 name c)" using Cons.prems(2) by simp
    have r: "remove1 name c = filter (\<lambda>n. n \<noteq> name) c"
      using Cons.prems(2) by (rule remove1_distinct_filter)
    have f1: "filter (\<lambda>t. t \<in> set (remove1 name c)) rest = filter (\<lambda>t. t \<in> set c) rest"
      using nr Cons.prems(2) by (intro filter_cong) auto
    have f2: "filter (\<lambda>n. n \<notin> set rest) (remove1 name c) = filter (\<lambda>n. n \<notin> set (name # rest)) c"
      unfolding r by (auto intro: filter_cong)
    from True Cons.IH [OF d dc, of "p @ [name]"] f1 f2 show ?thesis by simp
  next
    case False
    have f2: "filter (\<lambda>n. n \<notin> set rest) c = filter (\<lambda>n. n \<notin> set (name # rest)) c"
      using False by (intro filter_cong) auto
    from False Cons.IH [OF d Cons.prems(2), of p] f2 show ?thesis by simp
  qed
qed

lemma prioritized_servers_distinct:
  assumes "distinct names"
  shows "prioritized_servers names =
     filter (\<lambda>h. h \<in> set names) high_priority @
     filter (\<lambda>m. m \<in> set names) medium_priority @
     filter (\<lambda>n. n \<notin> set high_priority \<and> n \<notin> set medium_priority) names"
proof -
  have dh: "distinct high_priority" by (simp add: high_priority_def)
  have dm: "distinct medium_priority" by (simp add: medium_priority_def)
  have disj: "set high_priority \<inter> set medium_priority = {}"
    by (simp add: high_priority_def medium_priority_def)
  let ?c1 = "filter (\<lambda>n. n \<notin> set high_priority) names"
  have 1: "add_tier high_priority ([], names) =
      (filter (\<lambda>t. t \<in> set names) high_priority, ?c1)"
    using add_tier_distinct [OF dh assms, of "[]"] by simp
  have dc1: "distinct ?c1" using assms by simp
  have 2: "add_tier medium_priority (filter (\<lambda>t. t \<in> set names) high_priority, ?c1) =
      (filter (\<lambda>t. t \<in> set names) high_priority @ filter (\<lambda>t. t \<in> set ?c1) medium_priority,
       filter (\<lambda>n. n \<notin> set medium_priority) ?c1)"
    using add_tier_distinct [OF dm dc1] by simp
  have m: "filter (\<lambda>t. t \<in> set ?c1) medium_priority = filter (\<lambda>m. m \<in> set names) medium_priority"
    using disj by (intro filter_cong) auto
  have r: "filter (\<lambda>n. n \<notin> set medium_priority) ?c1 =
      filter (\<lambda>n. n \<notin> set high_priority \<and> n \<notin> set medium_priority) names"
    by (simp add: conj_commute)
  show ?thesis
    unfolding prioritized_servers_def 1 2 m r by simp
qed

lemma sort_key_pairs: "map fst (sort_key snd (map (\<lambda>n. (n, f n)) xs)) = sort_key f xs"
proof (induction xs)
  case Nil
  then show ?case by simp
next
  case (Cons x xs)
  have ins: "map fst (insort_key snd (x, f x) ps) = insort_key f x (map fst ps)"
    if "\<forall>p\<in>set ps. snd p = f (fst p)" for ps
    using that by (induction ps) auto
  have all: "\<forall>p\<in>set (sort_key snd (map (\<lambda>n. (n, f n)) xs)). snd p = f (fst p)"
    by auto
  show ?case using ins [OF all] Cons.IH by simp
qed

lemma sorted_server_names_sort_key:
  "sorted_server_names names = sort_key (\<lambda>n. get_server_priority (categorize_server n)) names"
  unfolding sorted_server_names_def by (rule sort_key_pairs)

text \<open>
  Claim C9. For a duplicate-free list of provider names, the order computed by the
  preparation scripts and the order computed by the enhanced agent's initializer are
  both permutations of the input: every name of the input occurs exactly once, and no
  other name occurs.
\<close>

theorem schedulers_permute:
  "distinct names \<Longrightarrow>
   mset (prioritized_servers names) = mset names \<and>
   distinct (prioritized_servers names) \<and>
   set (prioritized_servers names) = set names \<and>
   mset (sorted_server_names names) = mset names \<and>
   distinct (sorted_server_names names) \<and>
   set (sorted_server_names names) = set names"
proof -
  assume d: "distinct names"
  have m1: "mset (prioritized_servers names) = mset names"
    by (rule prioritized_servers_mset)
  have m2: "mset (sorted_server_names names) = mset names"
    by (simp add: sorted_server_names_sort_key)
  from m1 d have d1: "distinct (prioritized_servers names)"
    by (metis mset_eq_imp_distinct_iff)
  from m2 d have d2: "distinct (sorted_server_names names)"
    by (metis mset_eq_imp_distinct_iff)
  from m1 have s1: "set (prioritized_servers names) = set names" by (rule mset_eq_setD)
  from m2 have s2: "set (sorted_server_names names) = set names" by (rule mset_eq_setD)
  from m1 d1 s1 m2 d2 s2 show ?thesis by blast
qed

theorem schedulers_permute_witness:
  "distinct [''notes'', ''server-github'', ''filesystem''] \<and>
   prioritized_servers [''notes'', ''server-github'', ''filesystem''] =
     [''filesystem'', ''server-github'', ''notes''] \<and>
   mset (prioritized_servers [''notes'', ''server-github'', ''filesystem'']) =
     mset [''notes'', ''server-github'', ''filesystem''] \<and>
   mset (sorted_server_names [''notes'', ''server-github'', ''filesystem'']) =
     mset [''notes'', ''server-github'', ''filesystem'']"
proof -
  have d: "distinct [''notes'', ''server-github'', ''filesystem'']" by simp
  have e: "prioritized_servers [''notes'', ''server-github'', ''filesystem''] =
     [''filesystem'', ''server-github'', ''notes'']" by code_simp
  from d e schedulers_permute [OF d] show ?thesis by blast
qed

text \<open>
  Claim C3 as stated fails on both schedulers. The preparation scripts leave the names
  outside the two priority lists in input order: \<open>gmail\<close> (email, priority 6) stays
  before \<open>playwright\<close> (browser, priority 5). The enhanced agent's initializer has no
  priority lists: \<open>myfiles\<close> (filesystem, priority 1) goes before the high-priority
  name \<open>server-memory\<close> (memory, priority 2).
\<close>

theorem scheduler_not_spec_counterexample:
  "prioritized_servers [''gmail'', ''playwright''] = [''gmail'', ''playwright''] \<and>
   schedule_spec [''gmail'', ''playwright''] = [''playwright'', ''gmail''] \<and>
   sorted_server_names [''server-memory'', ''myfiles''] = [''myfiles'', ''server-memory''] \<and>
   schedule_spec [''server-memory'', ''myfiles''] = [''server-memory'', ''myfiles''] \<and>
   prioritized_servers [''gmail'', ''playwright''] \<noteq> schedule_spec [''gmail'', ''playwright''] \<and>
   sorted_server_names [''server-memory'', ''myfiles''] \<noteq>
     schedule_spec [''server-memory'', ''myfiles'']"
  by code_simp

text \<open>
  Claim C3, amended. For a duplicate-free list of names, the preparation scripts emit
  the high-priority names present, in the order of the high-priority list, then the
  medium-priority names present, in the order of the medium-priority list, then the
  remaining names in their input order. The enhanced agent's initializer, which has no
  priority lists, orders all names by the priority of their category (100 for a category
  outside the table), ascending and stable: names of equal priority keep their input
  order.
\<close>

theorem schedulers_order:
  "distinct names \<Longrightarrow>
   prioritized_servers names =
     filter (\<lambda>h. h \<in> set names) high_priority @
     filter (\<lambda>m. m \<in> set names) medium_priority @
     filter (\<lambda>n. n \<notin> set high_priority \<and> n \<notin> set medium_priority) names \<and>
   sorted_server_names names =
     sort_key (\<lambda>n. get_server_priority (categorize_server n)) names \<and>
   sorted (map (\<lambda>n. get_server_priority (categorize_server n)) (sorted_server_names names)) \<and>
   (\<forall>k. filter (\<lambda>n. get_server_priority (categorize_server n) = k) (sorted_server_names names) =
        filter (\<lambda>n. get_server_priority (categorize_server n) = k) names)"
proof -
  assume d: "distinct names"
  have 1: "prioritized_servers names =
     filter (\<lambda>h. h \<in> set names) high_priority @
     filter (\<lambda>m. m \<in> set names) medium_priority @
     filter (\<lambda>n. n \<notin> set high_priority \<and> n \<notin> set medium_priority) names"
    using d by (rule prioritized_servers_distinct)
  have 2: "sorted_server_names names =
     sort_key (\<lambda>n. get_server_priority (categorize_server n)) names"
    by (rule sorted_server_names_sort_key)
  have 3: "sorted (map (\<lambda>n. get_server_priority (categorize_server n)) (sorted_server_names names))"
    unfolding 2 by (rule sorted_sort_key)
  have 4: "\<forall>k. filter (\<lambda>n. get_server_priority (categorize_server n) = k) (sorted_server_names names) =
        filter (\<lambda>n. get_server_priority (categorize_server n) = k) names"
    unfolding 2 by (simp add: sort_key_stable)
  from 1 2 3 4 show ?thesis by blast
qed

theorem schedulers_order_witness:
  "distinct [''gmail'', ''server-github'', ''playwright'', ''filesystem''] \<and>
   prioritized_servers [''gmail'', ''server-github'', ''playwright'', ''filesystem''] =
     [''filesystem'', ''server-github'', ''gmail'', ''playwright''] \<and>
   sorted_server_names [''gmail'', ''server-github'', ''playwright'', ''filesystem''] =
     [''filesystem'', ''server-github'', ''playwright'', ''gmail'']"
proof -
  have d: "distinct [''gmail'', ''server-github'', ''playwright'', ''filesystem'']" by simp
  have h: "filter (\<lambda>h. h \<in> set [''gmail'', ''server-github'', ''playwright'', ''filesystem'']) high_priority = [''filesystem'']"
    by code_simp
  have m: "filter (\<lambda>h. h \<in> set [''gmail'', ''server-github'', ''playwright'', ''filesystem'']) medium_priority = [''server-github'']"
    by code_simp
  have r: "filter (\<lambda>n. n \<notin> set high_priority \<and> n \<notin> set medium_priority)
      [''gmail'', ''server-github'', ''playwright'', ''filesystem''] = [''gmail'', ''playwright'']"
    by code_simp
  have s: "sort_key (\<lambda>n. get_server_priority (categorize_server n))
      [''gmail'', ''server-github'', ''playwright'', ''filesystem''] =
      [''filesystem'', ''server-github'', ''playwright'', ''gmail'']"
    by code_simp
  from schedulers_order [OF d] h m r s d show ?thesis by simp
qed


section \<open>Facts about aggregation and the cache file\<close>

lemma dict_set_entries: "set (dict_set d k v) \<subseteq> insert (k, v) (set d)"
  by (induction d k v rule: dict_set.induct) auto

lemma dict_set_keys: "fst ` set (dict_set d k v) = insert k (fst ` set d)"
  by (induction d k v rule: dict_set.induct) auto

lemma dict_set_distinct: "distinct (map fst d) \<Longrightarrow> distinct (map fst (dict_set d k v))"
proof (induction d k v rule: dict_set.induct)
  case (1 k v)
  then show ?case by simp
next
  case (2 k' v' d k v)
  show ?case
  proof (cases "k' = k")
    case True
    with "2.prems" show ?thesis by simp
  next
    case False
    from "2.prems" have "distinct (map fst d)" and nk: "k' \<notin> fst ` set d" by auto
    with "2.IH" False have "distinct (map fst (dict_set d k v))" by simp
    moreover have "k' \<notin> fst ` set (dict_set d k v)"
      using nk False by (simp add: dict_set_keys)
    ultimately show ?thesis using False by simp
  qed
qed

lemma aggregate_distinct:
  "distinct (map fst acc) \<Longrightarrow> distinct (map fst (aggregate R acc))"
  by (induction R acc rule: aggregate.induct) (auto simp: dict_set_distinct)

lemma aggregate_entries:
  "(k, v) \<in> set (aggregate R acc) \<Longrightarrow> (k, v) \<in> set acc \<or> ((k, v) \<in> set R \<and> v \<noteq> [])"
proof (induction R acc rule: aggregate.induct)
  case (1 all_tools)
  then show ?case by simp
next
  case (2 server_name tools rest all_tools)
  let ?acc = "if tools \<noteq> [] then dict_set all_tools server_name tools else all_tools"
  from "2.prems" have "(k, v) \<in> set (aggregate rest ?acc)" by simp
  from "2.IH" [OF this]
  consider "(k, v) \<in> set ?acc" | "(k, v) \<in> set rest \<and> v \<noteq> []" by blast
  then show ?case
  proof cases
    case 1
    show ?thesis
    proof (cases "tools \<noteq> []")
      case True
      with 1 have "(k, v) \<in> insert (server_name, tools) (set all_tools)"
        using dict_set_entries [of all_tools server_name tools] by auto
      with True show ?thesis by auto
    next
      case False
      with 1 show ?thesis by simp
    qed
  next
    case 2
    then show ?thesis by simp
  qed
qed

lemma zip_results_entry:
  "(k, v) \<in> set (map (\<lambda>(j, n). (n, f j n)) (zip js names)) \<Longrightarrow>
   k \<in> set names \<and> (\<exists>j. v = f j k)"
  by (auto dest: set_zip_rightD)

lemma collect_tools_aggregate:
  "collect_tools v env i names acc = Inr c \<Longrightarrow>
   c = aggregate
     (map (\<lambda>(j, n). (n, case getitem v n of
                          Inl e \<Rightarrow> []
                        | Inr server_config \<Rightarrow>
                            returned (connect_to_mcp_server n server_config (env j n))))
        (zip [i..<i + length names] names)) acc"
proof (induction names arbitrary: i acc)
  case Nil
  then show ?case by simp
next
  case (Cons n rest)
  have u: "[i..<i + length (n # rest)] = i # [Suc i..<Suc i + length rest]"
    by (simp add: upt_rec)
  from Cons.prems obtain cfg where g: "getitem v n = Inr cfg"
    by (cases "getitem v n") simp_all
  let ?tools = "returned (connect_to_mcp_server n cfg (env i n))"
  from Cons.prems g
  have "collect_tools v env (Suc i) rest
      (if ?tools \<noteq> [] then dict_set acc n ?tools else acc) = Inr c"
    by (simp add: Let_def)
  from Cons.IH [OF this] show ?case
    unfolding u using g by simp
qed

lemma tools_read_file:
  "connect_to_mcp_server_safe server_config obs = Inr res \<Longrightarrow>
   tools_read res =
     (case result_file obs of Some (Some tools) \<Rightarrow> tools | Some None \<Rightarrow> [] | None \<Rightarrow> [])"
  by (auto simp: connect_to_mcp_server_safe_def Let_def split: if_splits sum.splits option.splits)

lemma collect_tools_safe_aggregate:
  "collect_tools_safe v env i names acc = Inr c \<Longrightarrow>
   \<forall>n\<in>set names. contains v n = Inr True \<Longrightarrow>
   c = aggregate
     (map (\<lambda>(j, n). (n, case result_file (env j n) of
                          Some (Some tools) \<Rightarrow> tools | Some None \<Rightarrow> [] | None \<Rightarrow> []))
        (zip [i..<i + length names] names)) acc"
proof (induction names arbitrary: i acc)
  case Nil
  then show ?case by simp
next
  case (Cons n rest)
  have u: "[i..<i + length (n # rest)] = i # [Suc i..<Suc i + length rest]"
    by (simp add: upt_rec)
  from Cons.prems have ct: "contains v n = Inr True" by simp
  from Cons.prems ct obtain cfg where g: "getitem v n = Inr cfg"
    by (cases "getitem v n") simp_all
  from Cons.prems ct g obtain res where
    r: "connect_to_mcp_server_safe cfg (env i n) = Inr res"
    by (cases "connect_to_mcp_server_safe cfg (env i n)") simp_all
  let ?tools = "tools_read res"
  from Cons.prems ct g r
  have "collect_tools_safe v env (Suc i) rest
      (if ?tools \<noteq> [] then dict_set acc n ?tools else acc) = Inr c"
    by (simp add: Let_def)
  moreover from Cons.prems have "\<forall>n\<in>set rest. contains v n = Inr True" by simp
  ultimately have "c = aggregate
     (map (\<lambda>(j, n). (n, case result_file (env j n) of
                          Some (Some tools) \<Rightarrow> tools | Some None \<Rightarrow> [] | None \<Rightarrow> []))
        (zip [Suc i..<Suc i + length rest] rest))
     (if ?tools \<noteq> [] then dict_set acc n ?tools else acc)"
    by (rule Cons.IH)
  then show ?case
    unfolding u using tools_read_file [OF r] by simp
qed

lemma filter_in_contains:
  "filter_in v names = Inr found \<Longrightarrow> n \<in> set found \<Longrightarrow> contains v n = Inr True"
proof (induction names arbitrary: found)
  case Nil
  then show ?case by simp
next
  case (Cons x rest)
  from Cons.prems(1) obtain b where b: "contains v x = Inr b"
    by (cases "contains v x") simp_all
  from Cons.prems(1) b obtain f where f: "filter_in v rest = Inr f"
    by (cases "filter_in v rest") simp_all
  from Cons.prems(1) b f have fd: "found = (if b then x # f else f)" by simp
  show ?case
  proof (cases "n \<in> set f")
    case True
    with Cons.IH [OF f] show ?thesis by simp
  next
    case False
    with Cons.prems(2) fd have "b" and "n = x" by (auto split: if_splits)
    with b show ?thesis by simp
  qed
qed

lemma filter_in_subset: "filter_in v names = Inr found \<Longrightarrow> set found \<subseteq> set names"
proof (induction names arbitrary: found)
  case Nil
  then show ?case by simp
next
  case (Cons x rest)
  from Cons.prems(1) obtain b where b: "contains v x = Inr b"
    by (cases "contains v x") simp_all
  from Cons.prems(1) b obtain f where f: "filter_in v rest = Inr f"
    by (cases "filter_in v rest") simp_all
  from Cons.prems(1) b f have fd: "found = (if b then x # f else f)" by simp
  from Cons.IH [OF f] fd show ?case by auto
qed

lemma filter_in_empty:
  "filter_in v names = Inr [] \<Longrightarrow> \<forall>x\<in>set names. contains v x = Inr False"
proof (induction names)
  case Nil
  then show ?case by simp
next
  case (Cons x rest)
  from Cons.prems(1) obtain b where b: "contains v x = Inr b"
    by (cases "contains v x") simp_all
  from Cons.prems(1) b obtain f where f: "filter_in v rest = Inr f"
    by (cases "filter_in v rest") simp_all
  from Cons.prems(1) b f have "\<not> b" and "f = []" by (auto split: if_splits)
  with Cons.IH f b show ?case by simp
qed


lemma keys_Inr: "keys v = Inr names \<Longrightarrow> \<exists>m. v = Dict m \<and> names = map fst m"
  by (cases v) (auto simp: keys_def)

lemma resolve_contains:
  "resolve v server_names = Inr names \<Longrightarrow> n \<in> set names \<Longrightarrow> contains v n = Inr True"
proof -
  assume r: "resolve v server_names = Inr names" and n: "n \<in> set names"
  have k: "contains v n = Inr True" if "keys v = Inr names"
  proof -
    from keys_Inr [OF that] obtain m where "v = Dict m" and "names = map fst m" by blast
    with n show ?thesis by (simp add: contains_def)
  qed
  show ?thesis
  proof (cases server_names)
    case None
    with r k show ?thesis by (simp add: resolve_def)
  next
    case (Some ns)
    show ?thesis
    proof (cases ns)
      case Nil
      with Some r k show ?thesis by (simp add: resolve_def)
    next
      case (Cons x xs)
      with Some r have "filter_in v (x # xs) = Inr names" by (simp add: resolve_def)
      from filter_in_contains [OF this n] show ?thesis .
    qed
  qed
qed

lemma resolve_empty:
  "resolve v server_names = Inr [] \<Longrightarrow>
   v = Dict [] \<or>
   (\<exists>n ns. server_names = Some (n # ns) \<and> (\<forall>x\<in>set (n # ns). contains v x = Inr False))"
proof -
  assume r: "resolve v server_names = Inr []"
  have k: "v = Dict []" if "keys v = Inr []"
    using keys_Inr [OF that] by auto
  show ?thesis
  proof (cases server_names)
    case None
    with r k show ?thesis by (simp add: resolve_def)
  next
    case (Some ns)
    show ?thesis
    proof (cases ns)
      case Nil
      with Some r k show ?thesis by (simp add: resolve_def)
    next
      case (Cons x xs)
      with Some r have "filter_in v (x # xs) = Inr []" by (simp add: resolve_def)
      from filter_in_empty [OF this] Some Cons show ?thesis by blast
    qed
  qed
qed

lemma contains_dict_False:
  "contains (Dict m) x = Inr False \<longleftrightarrow> x \<notin> fst ` set m"
  by (simp add: contains_def)

lemma prioritized_servers_set: "set (prioritized_servers names) = set names"
  using prioritized_servers_mset by (rule mset_eq_setD)

lemma save_tool_cache_fields:
  "outcome (save_tool_cache c dumps fault old) = Inr c \<and>
   cache_trace (save_tool_cache c dumps fault old) = write_trace (dumps c) fault old \<and>
   save_report (save_tool_cache c dumps fault old) =
     Some (case fault of No_fault \<Rightarrow> INFO | Open_fails \<Rightarrow> ERROR | Dump_fails k \<Rightarrow> ERROR)"
  by (simp add: save_tool_cache_def)

lemma initialize_mcp_servers_cases:
  "(save_report (initialize_mcp_servers config server_names env dumps fault old) = None \<and>
    cache_trace (initialize_mcp_servers config server_names env dumps fault old) = [old] \<and>
    (outcome (initialize_mcp_servers config server_names env dumps fault old) = Inr [] \<or>
     (\<exists>e. outcome (initialize_mcp_servers config server_names env dumps fault old) = Inl e))) \<or>
   (\<exists>v names c.
      mcpServers config = Inr v \<and> resolve v server_names = Inr names \<and> names \<noteq> [] \<and>
      collect_tools v env 0 (prioritized_servers names) [] = Inr c \<and>
      initialize_mcp_servers config server_names env dumps fault old =
        save_tool_cache c dumps fault old)"
proof (cases "mcpServers config")
  case (Inl e)
  then show ?thesis by (simp add: initialize_mcp_servers_def)
next
  case v: (Inr v)
  show ?thesis
  proof (cases "resolve v server_names")
    case (Inl e)
    with v show ?thesis by (simp add: initialize_mcp_servers_def)
  next
    case n: (Inr names)
    show ?thesis
    proof (cases "names = []")
      case True
      with v n show ?thesis by (simp add: initialize_mcp_servers_def)
    next
      case False
      show ?thesis
      proof (cases "collect_tools v env 0 (prioritized_servers names) []")
        case (Inl e)
        with v n False show ?thesis by (simp add: initialize_mcp_servers_def)
      next
        case (Inr c)
        with v n False
        have "initialize_mcp_servers config server_names env dumps fault old =
            save_tool_cache c dumps fault old"
          by (simp add: initialize_mcp_servers_def)
        with v n False Inr show ?thesis by blast
      qed
    qed
  qed
qed

lemma process_all_servers_cases:
  "(save_report (process_all_servers config server_names env dumps fault old) = None \<and>
    cache_trace (process_all_servers config server_names env dumps fault old) = [old] \<and>
    (outcome (process_all_servers config server_names env dumps fault old) = Inr [] \<or>
     (\<exists>e. outcome (process_all_servers config server_names env dumps fault old) = Inl e))) \<or>
   (\<exists>v names c.
      mcpServers config = Inr v \<and> resolve v server_names = Inr names \<and> names \<noteq> [] \<and>
      collect_tools_safe v env 0 (prioritized_servers names) [] = Inr c \<and>
      process_all_servers config server_names env dumps fault old =
        save_tool_cache c dumps fault old)"
proof (cases "mcpServers config")
  case (Inl e)
  then show ?thesis by (simp add: process_all_servers_def)
next
  case v: (Inr v)
  show ?thesis
  proof (cases "resolve v server_names")
    case (Inl e)
    with v show ?thesis by (simp add: process_all_servers_def)
  next
    case n: (Inr names)
    show ?thesis
    proof (cases "names = []")
      case True
      with v n show ?thesis by (simp add: process_all_servers_def)
    next
      case False
      show ?thesis
      proof (cases "collect_tools_safe v env 0 (prioritized_servers names) []")
        case (Inl e)
        with v n False show ?thesis by (simp add: process_all_servers_def)
      next
        case (Inr c)
        with v n False
        have "process_all_servers config server_names env dumps fault old =
            save_tool_cache c dumps fault old"
          by (simp add: process_all_servers_def)
        with v n False Inr show ?thesis by blast
      qed
    qed
  qed
qed

text \<open>The result sequence of a run, and the mapping returned as its aggregate.\<close>

lemma initialize_mcp_servers_aggregate:
  assumes "outcome (initialize_mcp_servers config server_names env dumps fault old) = Inr cache"
  shows "cache = [] \<or>
     (\<exists>v names. mcpServers config = Inr v \<and> resolve v server_names = Inr names \<and>
        cache = aggregate
          (map (\<lambda>(j, n). (n, case getitem v n of
                               Inl e \<Rightarrow> []
                             | Inr server_config \<Rightarrow>
                                 returned (connect_to_mcp_server n server_config (env j n))))
             (zip [0..<length (prioritized_servers names)] (prioritized_servers names))) [])"
  using initialize_mcp_servers_cases [of config server_names env dumps fault old]
proof (elim disjE exE conjE)
  assume "outcome (initialize_mcp_servers config server_names env dumps fault old) = Inr []"
  with assms show ?thesis by simp
next
  fix e
  assume "outcome (initialize_mcp_servers config server_names env dumps fault old) = Inl e"
  with assms show ?thesis by simp
next
  fix v names c
  assume v: "mcpServers config = Inr v" and n: "resolve v server_names = Inr names"
    and c: "collect_tools v env 0 (prioritized_servers names) [] = Inr c"
    and s: "initialize_mcp_servers config server_names env dumps fault old =
        save_tool_cache c dumps fault old"
  from assms s have "cache = c" by (simp add: save_tool_cache_def)
  with collect_tools_aggregate [OF c] v n show ?thesis by auto
qed

lemma process_all_servers_aggregate:
  assumes "outcome (process_all_servers config server_names env dumps fault old) = Inr cache"
  shows "cache = [] \<or>
     (\<exists>v names. mcpServers config = Inr v \<and> resolve v server_names = Inr names \<and>
        cache = aggregate
          (map (\<lambda>(j, n). (n, case result_file (env j n) of
                               Some (Some tools) \<Rightarrow> tools | Some None \<Rightarrow> [] | None \<Rightarrow> []))
             (zip [0..<length (prioritized_servers names)] (prioritized_servers names))) [])"
  using process_all_servers_cases [of config server_names env dumps fault old]
proof (elim disjE exE conjE)
  assume "outcome (process_all_servers config server_names env dumps fault old) = Inr []"
  with assms show ?thesis by simp
next
  fix e
  assume "outcome (process_all_servers config server_names env dumps fault old) = Inl e"
  with assms show ?thesis by simp
next
  fix v names c
  assume v: "mcpServers config = Inr v" and n: "resolve v server_names = Inr names"
    and c: "collect_tools_safe v env 0 (prioritized_servers names) [] = Inr c"
    and s: "process_all_servers config server_names env dumps fault old =
        save_tool_cache c dumps fault old"
  from assms s have "cache = c" by (simp add: save_tool_cache_def)
  moreover have "\<forall>x\<in>set (prioritized_servers names). contains v x = Inr True"
    using resolve_contains [OF n] by (simp add: prioritized_servers_set)
  ultimately show ?thesis using collect_tools_safe_aggregate [OF c] v n by auto
qed

lemma returned_nonempty_connected:
  "returned (connect_to_mcp_server name server_config a) \<noteq> [] \<Longrightarrow>
   \<exists>tools. response a = Connected tools \<and> \<not> close_raises a \<and>
     returned (connect_to_mcp_server name server_config a) = tool_schemas tools"
  by (cases "response a"; cases "connection_params server_config")
    (auto simp: connect_to_mcp_server_def aclose_def Let_def split: if_splits)

lemma prefix_states:
  "last (map (\<lambda>j. Some (concat (take j chunks))) [0..<Suc m]) = Some (concat (take m chunks)) \<and>
   map (\<lambda>j. Some (concat (take j chunks))) [0..<Suc m] ! 0 = Some [] \<and>
   (\<forall>c\<in>set (map (\<lambda>j. Some (concat (take j chunks))) [0..<Suc m]).
      \<exists>j. c = Some (concat (take j chunks)))"
proof -
  have 1: "last (map (\<lambda>j. Some (concat (take j chunks))) [0..<Suc m]) =
      Some (concat (take m chunks))"
    by simp
  have "map (\<lambda>j. Some (concat (take j chunks))) [0..<Suc m] ! 0 =
      Some (concat (take ([0..<Suc m] ! 0) chunks))"
    by (rule nth_map) simp
  also have "[0..<Suc m] ! 0 = 0" by (simp only: nth_upt add_0 zero_less_Suc)
  finally have 2: "map (\<lambda>j. Some (concat (take j chunks))) [0..<Suc m] ! 0 = Some []"
    by simp
  have 3: "\<forall>c\<in>set (map (\<lambda>j. Some (concat (take j chunks))) [0..<Suc m]).
      \<exists>j. c = Some (concat (take j chunks))"
    by (simp only: set_map) blast
  from 1 2 3 show ?thesis by blast
qed

lemma write_trace_facts:
  "(fault = No_fault \<longrightarrow> last (write_trace chunks fault old) = Some (concat chunks)) \<and>
   (fault = Open_fails \<longrightarrow> write_trace chunks fault old = [old]) \<and>
   (\<forall>k. fault = Dump_fails k \<longrightarrow>
      last (write_trace chunks fault old) = Some (concat (take k chunks))) \<and>
   (fault \<noteq> Open_fails \<longrightarrow> write_trace chunks fault old ! 1 = Some []) \<and>
   (\<forall>c\<in>set (tl (write_trace chunks fault old)). \<exists>j. c = Some (concat (take j chunks)))"
proof (cases fault)
  case No_fault
  let ?tr = "map (\<lambda>j. Some (concat (take j chunks))) [0..<Suc (length chunks)]"
  have w: "write_trace chunks fault old = old # ?tr"
    using No_fault by (simp add: write_trace_def)
  have ne: "?tr \<noteq> []" by simp
  from prefix_states [of chunks "length chunks"]
  have l: "last ?tr = Some (concat chunks)" and h: "?tr ! 0 = Some []"
    and a: "\<forall>c\<in>set ?tr. \<exists>j. c = Some (concat (take j chunks))"
    by simp_all
  have "last (old # ?tr) = Some (concat chunks)" by (simp only: last_ConsR [OF ne] l)
  moreover have "(old # ?tr) ! 1 = Some []" using h by simp
  moreover have "tl (old # ?tr) = ?tr" by simp
  ultimately show ?thesis using No_fault a unfolding w by simp
next
  case Open_fails
  then show ?thesis by (simp add: write_trace_def)
next
  case (Dump_fails k)
  let ?m = "min k (length chunks)"
  let ?tr = "map (\<lambda>j. Some (concat (take j chunks))) [0..<Suc ?m]"
  have w: "write_trace chunks fault old = old # ?tr"
    using Dump_fails by (simp add: write_trace_def)
  have ne: "?tr \<noteq> []" by simp
  have tk: "take ?m chunks = take k chunks" by (simp add: min_def)
  from prefix_states [of chunks ?m]
  have l: "last ?tr = Some (concat (take k chunks))" and h: "?tr ! 0 = Some []"
    and a: "\<forall>c\<in>set ?tr. \<exists>j. c = Some (concat (take j chunks))"
    unfolding tk by blast+
  have "last (old # ?tr) = Some (concat (take k chunks))" by (simp only: last_ConsR [OF ne] l)
  moreover have "(old # ?tr) ! 1 = Some []" using h by simp
  moreover have "tl (old # ?tr) = ?tr" by simp
  ultimately show ?thesis using Dump_fails a unfolding w by simp
qed

lemma run_write_facts:
  assumes "cache_trace r = write_trace chunks fault old"
  shows "(fault = No_fault \<longrightarrow> cache_after r = Some (concat chunks)) \<and>
     (fault = Open_fails \<longrightarrow> cache_trace r = [old]) \<and>
     (\<forall>k. fault = Dump_fails k \<longrightarrow> cache_after r = Some (concat (take k chunks))) \<and>
     (fault \<noteq> Open_fails \<longrightarrow> cache_trace r ! 1 = Some []) \<and>
     (\<forall>c\<in>set (tl (cache_trace r)). \<exists>j. c = Some (concat (take j chunks)))"
  unfolding cache_after_def assms by (rule write_trace_facts)

text \<open>
  What a run leaves in the cache file, by the message about the save: without a message
  the file was never opened; after the information message it holds the whole encoding
  of the mapping returned; a save that could not open the file leaves it as it was.
\<close>

lemma run_persisted:
  assumes "(save_report r = None \<and> cache_trace r = [old] \<and>
            (outcome r = Inr [] \<or> (\<exists>e. outcome r = Inl e))) \<or>
           (\<exists>c. r = save_tool_cache c dumps fault old)"
  shows "(save_report r = None \<longrightarrow> cache_trace r = [old]) \<and>
     ((\<exists>e. outcome r = Inl e) \<longrightarrow> save_report r = None) \<and>
     (save_report r = None \<or> fault = Open_fails \<longrightarrow> cache_after r = old) \<and>
     (\<forall>cache. outcome r = Inr cache \<and> save_report r \<noteq> None \<longrightarrow>
        save_report r = Some (if fault = No_fault then INFO else ERROR) \<and>
        cache_trace r = write_trace (dumps cache) fault old) \<and>
     (\<forall>cache. outcome r = Inr cache \<and> save_report r = Some INFO \<longrightarrow>
        fault = No_fault \<and> cache_after r = Some (concat (dumps cache)))"
  using assms
proof (elim disjE exE)
  assume "save_report r = None \<and> cache_trace r = [old] \<and>
            (outcome r = Inr [] \<or> (\<exists>e. outcome r = Inl e))"
  then show ?thesis by (auto simp: cache_after_def)
next
  fix c
  assume r: "r = save_tool_cache c dumps fault old"
  have t: "cache_trace r = write_trace (dumps c) fault old"
    unfolding r by (simp add: save_tool_cache_def)
  have o: "outcome r = Inr c" unfolding r by (simp add: save_tool_cache_def)
  have s: "save_report r = Some (if fault = No_fault then INFO else ERROR)"
    unfolding r by (cases fault) (simp_all add: save_tool_cache_def)
  from run_write_facts [OF t]
  have a: "fault = No_fault \<longrightarrow> cache_after r = Some (concat (dumps c))"
    and b: "fault = Open_fails \<longrightarrow> cache_trace r = [old]"
    by blast+
  from b have b': "fault = Open_fails \<longrightarrow> cache_after r = old" by (simp add: cache_after_def)
  from o s t a b' show ?thesis by auto
qed



lemma getitem_dict:
  "n \<in> fst ` set m \<Longrightarrow> \<exists>c. getitem (Dict m) n = Inr c \<and> map_of m n = Some c"
proof -
  assume "n \<in> fst ` set m"
  then have "map_of m n \<noteq> None" by (simp add: map_of_eq_None_iff)
  then show ?thesis by (auto simp: getitem_def)
qed

lemma collect_tools_dict_returns:
  "set names \<subseteq> fst ` set m \<Longrightarrow> \<exists>c. collect_tools (Dict m) env i names acc = Inr c"
proof (induction names arbitrary: i acc)
  case Nil
  then show ?case by simp
next
  case (Cons n rest)
  from Cons.prems have "n \<in> fst ` set m" and r: "set rest \<subseteq> fst ` set m" by simp_all
  from getitem_dict [OF this(1)] obtain c where "getitem (Dict m) n = Inr c" by blast
  with Cons.IH [OF r] show ?case by (simp add: Let_def)
qed

lemma connect_to_mcp_server_safe_returns:
  "script_opened obs \<Longrightarrow> script_written obs \<Longrightarrow> worker_started obs \<Longrightarrow> connection_params c = Inr p \<Longrightarrow>
   \<exists>res. connect_to_mcp_server_safe c obs = Inr res"
  by (simp add: connect_to_mcp_server_safe_def Let_def split: option.splits)

lemma collect_tools_safe_dict_returns:
  assumes "\<forall>n c. map_of m n = Some c \<longrightarrow> (\<exists>p. connection_params c = Inr p)"
    and "\<forall>i n. script_opened (env i n) \<and> script_written (env i n) \<and> worker_started (env i n)"
  shows "\<exists>c. collect_tools_safe (Dict m) env i names acc = Inr c"
proof (induction names arbitrary: i acc)
  case Nil
  then show ?case by simp
next
  case (Cons n rest)
  show ?case
  proof (cases "n \<in> fst ` set m")
    case False
    then have "contains (Dict m) n = Inr False" by (simp add: contains_def)
    with Cons.IH show ?thesis by simp
  next
    case True
    then have ct: "contains (Dict m) n = Inr True" by (simp add: contains_def)
    from getitem_dict [OF True] obtain c where g: "getitem (Dict m) n = Inr c"
      and mo: "map_of m n = Some c"
      by blast
    from assms(1) mo obtain p where "connection_params c = Inr p" by blast
    with assms(2) connect_to_mcp_server_safe_returns [of "env i n" c p]
    obtain res where "connect_to_mcp_server_safe c (env i n) = Inr res" by blast
    with ct g Cons.IH show ?thesis by (simp add: Let_def)
  qed
qed

lemma resolve_dict_subset:
  "resolve (Dict m) server_names = Inr names \<Longrightarrow> set names \<subseteq> fst ` set m"
proof
  fix n
  assume "resolve (Dict m) server_names = Inr names" and "n \<in> set names"
  then have "contains (Dict m) n = Inr True" by (rule resolve_contains)
  then show "n \<in> fst ` set m" by (simp add: contains_def)
qed

lemma initialize_mcp_servers_saves:
  assumes "mcpServers config = Inr (Dict m)" and "resolve (Dict m) server_names = Inr names"
    and "names \<noteq> []"
  shows "\<exists>c. initialize_mcp_servers config server_names env dumps fault old =
     save_tool_cache c dumps fault old"
proof -
  have "set (prioritized_servers names) \<subseteq> fst ` set m"
    using resolve_dict_subset [OF assms(2)] by (simp add: prioritized_servers_set)
  from collect_tools_dict_returns [OF this]
  obtain c where "collect_tools (Dict m) env 0 (prioritized_servers names) [] = Inr c"
    by blast
  with assms have "initialize_mcp_servers config server_names env dumps fault old =
     save_tool_cache c dumps fault old"
    by (simp add: initialize_mcp_servers_def)
  then show ?thesis by blast
qed

lemma process_all_servers_saves:
  assumes "mcpServers config = Inr (Dict m)" and "resolve (Dict m) server_names = Inr names"
    and "names \<noteq> []"
    and "\<forall>n c. map_of m n = Some c \<longrightarrow> (\<exists>p. connection_params c = Inr p)"
    and "\<forall>i n. script_opened (env i n) \<and> script_written (env i n) \<and> worker_started (env i n)"
  shows "\<exists>c. process_all_servers config server_names env dumps fault old =
     save_tool_cache c dumps fault old"
proof -
  from collect_tools_safe_dict_returns [OF assms(4,5)]
  obtain c where "collect_tools_safe (Dict m) env 0 (prioritized_servers names) [] = Inr c"
    by blast
  with assms have "process_all_servers config server_names env dumps fault old =
     save_tool_cache c dumps fault old"
    by (simp add: process_all_servers_def)
  then show ?thesis by blast
qed



section \<open>The persisted cache\<close>

text \<open>
  Claim C6 as stated fails for the persisted cache. Both providers are configured. A
  first run, in which both connect, writes the cache file. In a second run the provider
  \<open>slow\<close> runs into the timeout and the cache file cannot be opened for writing: the
  run logs the error and returns the mapping without \<open>slow\<close>, but the file still holds
  what the first run wrote, the encoding of a mapping that has \<open>slow\<close> as a key.
\<close>

theorem stale_cache_counterexample:
  "cache_after
     (initialize_mcp_servers
        (Object (Dict [(''fs'', Spec (Some ''npx'') (Some [])),
                       (''slow'', Spec (Some ''npx'') (Some []))])) None
        (\<lambda>i n. \<lparr>response = Connected [\<lparr>attr_name = Some ''ls'', attr_description = None,
                   attr_parameters = None\<rparr>], close_raises = False\<rparr>)
        (\<lambda>c. ''{'' # map fst c @ [''}'']) No_fault None) = Some ''{fsslow}'' \<and>
   outcome
     (initialize_mcp_servers
        (Object (Dict [(''fs'', Spec (Some ''npx'') (Some [])),
                       (''slow'', Spec (Some ''npx'') (Some []))])) None
        (\<lambda>i n. if n = ''slow'' then \<lparr>response = TimeoutError True, close_raises = False\<rparr>
           else \<lparr>response = Connected [\<lparr>attr_name = Some ''ls'', attr_description = None,
                   attr_parameters = None\<rparr>], close_raises = False\<rparr>)
        (\<lambda>c. ''{'' # map fst c @ [''}'']) Open_fails (Some ''{fsslow}'')) =
     Inr [(''fs'', [\<lparr>schema_name = ''ls'', schema_description = [],
            schema_parameters = JObj []\<rparr>])] \<and>
   cache_after
     (initialize_mcp_servers
        (Object (Dict [(''fs'', Spec (Some ''npx'') (Some [])),
                       (''slow'', Spec (Some ''npx'') (Some []))])) None
        (\<lambda>i n. if n = ''slow'' then \<lparr>response = TimeoutError True, close_raises = False\<rparr>
           else \<lparr>response = Connected [\<lparr>attr_name = Some ''ls'', attr_description = None,
                   attr_parameters = None\<rparr>], close_raises = False\<rparr>)
        (\<lambda>c. ''{'' # map fst c @ [''}'']) Open_fails (Some ''{fsslow}'')) =
     Some (concat (''{'' #
       map fst [(''fs'', [\<lparr>schema_name = ''ls'', schema_description = [],
                   schema_parameters = JObj []\<rparr>]),
                (''slow'', [\<lparr>schema_name = ''ls'', schema_description = [],
                   schema_parameters = JObj []\<rparr>])] @ [''}'']))"
  by code_simp

text \<open>
  Claim C6, amended. The keys of the mapping that a preparation run of either script
  returns are pairwise different, and every key maps to a list that is not empty: the
  schemas of some connection to that provider that was established and closed without
  an exception (\<open>prepare_mcp_tools.py\<close>), or the list read from a result file of
  that provider (\<open>prepare_safe.py\<close>). A provider whose connections all failed,
  timed out or gave no tools in that run is not a key of the mapping. When the save is
  reported as completed, the cache file holds exactly the encoding of that mapping, so
  the same is true of the persisted cache. When the run does not come to the save, or
  the save cannot open the file, the file keeps the content it had before the run. The
  save is reported as completed whenever \<open>mcpServers\<close> is a dictionary, some
  provider is resolved and writing the file meets no fault; for \<open>prepare_safe.py\<close>
  also every entry must have \<open>command\<close> and \<open>args\<close>, and every temporary
  script and worker must have been started.
\<close>

theorem cache_values_nonempty:
  "(outcome (initialize_mcp_servers config server_names env dumps fault old) = Inr cache \<longrightarrow>
      distinct (map fst cache) \<and>
      ((name, tools) \<in> set cache \<longrightarrow>
         tools \<noteq> [] \<and>
         (\<exists>i ts. response (env i name) = Connected ts \<and> \<not> close_raises (env i name) \<and>
            tools = tool_schemas ts)) \<and>
      ((\<forall>i ts. response (env i name) = Connected ts \<and> \<not> close_raises (env i name) \<longrightarrow>
          tool_schemas ts = []) \<longrightarrow>
         name \<notin> fst ` set cache) \<and>
      (save_report (initialize_mcp_servers config server_names env dumps fault old) =
         Some INFO \<longrightarrow>
         cache_after (initialize_mcp_servers config server_names env dumps fault old) =
           Some (concat (dumps cache)))) \<and>
   (save_report (initialize_mcp_servers config server_names env dumps fault old) = None \<or>
    fault = Open_fails \<longrightarrow>
      cache_after (initialize_mcp_servers config server_names env dumps fault old) = old) \<and>
   (mcpServers config = Inr (Dict m) \<and> resolve (Dict m) server_names = Inr names \<and>
    names \<noteq> [] \<and> fault = No_fault \<longrightarrow>
      save_report (initialize_mcp_servers config server_names env dumps fault old) =
        Some INFO) \<and>
   (outcome (process_all_servers config server_names env' dumps' fault old) = Inr cache' \<longrightarrow>
      distinct (map fst cache') \<and>
      ((name', tools') \<in> set cache' \<longrightarrow>
         tools' \<noteq> [] \<and> (\<exists>i. result_file (env' i name') = Some (Some tools'))) \<and>
      ((\<forall>i ts. result_file (env' i name') = Some (Some ts) \<longrightarrow> ts = []) \<longrightarrow>
         name' \<notin> fst ` set cache') \<and>
      (save_report (process_all_servers config server_names env' dumps' fault old) =
         Some INFO \<longrightarrow>
         cache_after (process_all_servers config server_names env' dumps' fault old) =
           Some (concat (dumps' cache')))) \<and>
   (save_report (process_all_servers config server_names env' dumps' fault old) = None \<or>
    fault = Open_fails \<longrightarrow>
      cache_after (process_all_servers config server_names env' dumps' fault old) = old) \<and>
   (mcpServers config = Inr (Dict m) \<and> resolve (Dict m) server_names = Inr names \<and>
    names \<noteq> [] \<and> fault = No_fault \<and>
    (\<forall>n c. map_of m n = Some c \<longrightarrow> (\<exists>p. connection_params c = Inr p)) \<and>
    (\<forall>i n. script_opened (env' i n) \<and> script_written (env' i n) \<and>
       worker_started (env' i n)) \<longrightarrow>
      save_report (process_all_servers config server_names env' dumps' fault old) =
        Some INFO)"
proof -
  let ?r = "initialize_mcp_servers config server_names env dumps fault old"
  let ?r' = "process_all_servers config server_names env' dumps' fault old"
  have 1: "v \<noteq> [] \<and>
      (\<exists>i ts. response (env i k) = Connected ts \<and> \<not> close_raises (env i k) \<and>
         v = tool_schemas ts)"
    if o: "outcome ?r = Inr cache" and m: "(k, v) \<in> set cache" for k v
  proof -
    from initialize_mcp_servers_aggregate [OF o] m
    obtain w names where "cache = aggregate
          (map (\<lambda>(j, n). (n, case getitem w n of
                               Inl e \<Rightarrow> []
                             | Inr server_config \<Rightarrow>
                                 returned (connect_to_mcp_server n server_config (env j n))))
             (zip [0..<length (prioritized_servers names)] (prioritized_servers names))) []"
      by auto
    with m have "(k, v) \<in> set (aggregate
          (map (\<lambda>(j, n). (n, case getitem w n of
                               Inl e \<Rightarrow> []
                             | Inr server_config \<Rightarrow>
                                 returned (connect_to_mcp_server n server_config (env j n))))
             (zip [0..<length (prioritized_servers names)] (prioritized_servers names))) [])"
      by simp
    from aggregate_entries [OF this]
    have e: "(k, v) \<in> set (map (\<lambda>(j, n). (n, case getitem w n of
                               Inl e \<Rightarrow> []
                             | Inr server_config \<Rightarrow>
                                 returned (connect_to_mcp_server n server_config (env j n))))
             (zip [0..<length (prioritized_servers names)] (prioritized_servers names)))"
      and ne: "v \<noteq> []"
      by auto
    from zip_results_entry [OF e]
    obtain j where j: "v = (case getitem w k of
                               Inl e \<Rightarrow> []
                             | Inr server_config \<Rightarrow>
                                 returned (connect_to_mcp_server k server_config (env j k)))"
      by blast
    with ne obtain cfg where "getitem w k = Inr cfg"
      and v: "v = returned (connect_to_mcp_server k cfg (env j k))"
      by (cases "getitem w k") auto
    from returned_nonempty_connected [of k cfg "env j k"] ne v
    obtain ts where "response (env j k) = Connected ts" and "\<not> close_raises (env j k)"
      and "v = tool_schemas ts"
      by auto
    with ne show ?thesis by blast
  qed
  have 2: "distinct (map fst cache)" if o: "outcome ?r = Inr cache"
    using initialize_mcp_servers_aggregate [OF o] aggregate_distinct [of "[]"]
    by auto
  have 3: "v \<noteq> [] \<and> (\<exists>i. result_file (env' i k) = Some (Some v))"
    if o: "outcome ?r' = Inr cache'" and m: "(k, v) \<in> set cache'" for k v
  proof -
    from process_all_servers_aggregate [OF o] m
    obtain w names where "cache' = aggregate
          (map (\<lambda>(j, n). (n, case result_file (env' j n) of
                               Some (Some tools) \<Rightarrow> tools | Some None \<Rightarrow> [] | None \<Rightarrow> []))
             (zip [0..<length (prioritized_servers names)] (prioritized_servers names))) []"
      by auto
    with m have "(k, v) \<in> set (aggregate
          (map (\<lambda>(j, n). (n, case result_file (env' j n) of
                               Some (Some tools) \<Rightarrow> tools | Some None \<Rightarrow> [] | None \<Rightarrow> []))
             (zip [0..<length (prioritized_servers names)] (prioritized_servers names))) [])"
      by simp
    from aggregate_entries [OF this]
    have e: "(k, v) \<in> set (map (\<lambda>(j, n). (n, case result_file (env' j n) of
                               Some (Some tools) \<Rightarrow> tools | Some None \<Rightarrow> [] | None \<Rightarrow> []))
             (zip [0..<length (prioritized_servers names)] (prioritized_servers names)))"
      and ne: "v \<noteq> []"
      by auto
    from zip_results_entry [OF e]
    obtain j where j: "v = (case result_file (env' j k) of
        Some (Some tools) \<Rightarrow> tools | Some None \<Rightarrow> [] | None \<Rightarrow> [])"
      by blast
    with ne have "result_file (env' j k) = Some (Some v)"
      by (auto split: option.splits)
    with ne show ?thesis by blast
  qed
  have 4: "distinct (map fst cache')" if o: "outcome ?r' = Inr cache'"
    using process_all_servers_aggregate [OF o] aggregate_distinct [of "[]"]
    by auto
  have 5: "name \<notin> fst ` set cache"
    if o: "outcome ?r = Inr cache"
      and z: "\<forall>i ts. response (env i name) = Connected ts \<and> \<not> close_raises (env i name) \<longrightarrow>
          tool_schemas ts = []"
  proof
    assume "name \<in> fst ` set cache"
    then obtain v where "(name, v) \<in> set cache" by auto
    from 1 [OF o this] z show False by blast
  qed
  have 6: "name' \<notin> fst ` set cache'"
    if o: "outcome ?r' = Inr cache'"
      and z: "\<forall>i ts. result_file (env' i name') = Some (Some ts) \<longrightarrow> ts = []"
  proof
    assume "name' \<in> fst ` set cache'"
    then obtain v where "(name', v) \<in> set cache'" by auto
    from 3 [OF o this] z show False by blast
  qed
  have c: "(save_report ?r = None \<and> cache_trace ?r = [old] \<and>
            (outcome ?r = Inr [] \<or> (\<exists>e. outcome ?r = Inl e))) \<or>
           (\<exists>c. ?r = save_tool_cache c dumps fault old)"
    using initialize_mcp_servers_cases [of config server_names env dumps fault old] by blast
  have c': "(save_report ?r' = None \<and> cache_trace ?r' = [old] \<and>
            (outcome ?r' = Inr [] \<or> (\<exists>e. outcome ?r' = Inl e))) \<or>
           (\<exists>c. ?r' = save_tool_cache c dumps' fault old)"
    using process_all_servers_cases [of config server_names env' dumps' fault old] by blast
  from run_persisted [OF c]
  have 7: "save_report ?r = None \<or> fault = Open_fails \<longrightarrow> cache_after ?r = old"
    and 8: "outcome ?r = Inr cache \<and> save_report ?r = Some INFO \<longrightarrow>
        cache_after ?r = Some (concat (dumps cache))"
    by blast+
  from run_persisted [OF c']
  have 9: "save_report ?r' = None \<or> fault = Open_fails \<longrightarrow> cache_after ?r' = old"
    and 10: "outcome ?r' = Inr cache' \<and> save_report ?r' = Some INFO \<longrightarrow>
        cache_after ?r' = Some (concat (dumps' cache'))"
    by blast+
  from 1 2 5 8 have A: "outcome ?r = Inr cache \<longrightarrow>
      distinct (map fst cache) \<and>
      ((name, tools) \<in> set cache \<longrightarrow>
         tools \<noteq> [] \<and>
         (\<exists>i ts. response (env i name) = Connected ts \<and> \<not> close_raises (env i name) \<and>
            tools = tool_schemas ts)) \<and>
      ((\<forall>i ts. response (env i name) = Connected ts \<and> \<not> close_raises (env i name) \<longrightarrow>
          tool_schemas ts = []) \<longrightarrow>
         name \<notin> fst ` set cache) \<and>
      (save_report ?r = Some INFO \<longrightarrow> cache_after ?r = Some (concat (dumps cache)))"
    by blast
  from 3 4 6 10 have B: "outcome ?r' = Inr cache' \<longrightarrow>
      distinct (map fst cache') \<and>
      ((name', tools') \<in> set cache' \<longrightarrow>
         tools' \<noteq> [] \<and> (\<exists>i. result_file (env' i name') = Some (Some tools'))) \<and>
      ((\<forall>i ts. result_file (env' i name') = Some (Some ts) \<longrightarrow> ts = []) \<longrightarrow>
         name' \<notin> fst ` set cache') \<and>
      (save_report ?r' = Some INFO \<longrightarrow> cache_after ?r' = Some (concat (dumps' cache')))"
    by blast
  have C: "mcpServers config = Inr (Dict m) \<and> resolve (Dict m) server_names = Inr names \<and>
      names \<noteq> [] \<and> fault = No_fault \<longrightarrow> save_report ?r = Some INFO"
  proof
    assume h: "mcpServers config = Inr (Dict m) \<and> resolve (Dict m) server_names = Inr names \<and>
      names \<noteq> [] \<and> fault = No_fault"
    then obtain c where "?r = save_tool_cache c dumps fault old"
      using initialize_mcp_servers_saves [of config m server_names names env dumps fault old]
      by blast
    with h show "save_report ?r = Some INFO" by (simp add: save_tool_cache_def)
  qed
  have D: "mcpServers config = Inr (Dict m) \<and> resolve (Dict m) server_names = Inr names \<and>
      names \<noteq> [] \<and> fault = No_fault \<and>
      (\<forall>n c. map_of m n = Some c \<longrightarrow> (\<exists>p. connection_params c = Inr p)) \<and>
      (\<forall>i n. script_opened (env' i n) \<and> script_written (env' i n) \<and>
         worker_started (env' i n)) \<longrightarrow>
      save_report ?r' = Some INFO"
  proof
    assume h: "mcpServers config = Inr (Dict m) \<and> resolve (Dict m) server_names = Inr names \<and>
      names \<noteq> [] \<and> fault = No_fault \<and>
      (\<forall>n c. map_of m n = Some c \<longrightarrow> (\<exists>p. connection_params c = Inr p)) \<and>
      (\<forall>i n. script_opened (env' i n) \<and> script_written (env' i n) \<and>
         worker_started (env' i n))"
    then obtain c where "?r' = save_tool_cache c dumps' fault old"
      using process_all_servers_saves [of config m server_names names env' dumps' fault old]
      by blast
    with h show "save_report ?r' = Some INFO" by (simp add: save_tool_cache_def)
  qed
  from A 7 C B 9 D show ?thesis by (intro conjI)
qed

theorem cache_values_nonempty_witness:
  "outcome (initialize_mcp_servers
      (Object (Dict [(''fs'', Spec (Some ''npx'') (Some [])),
                     (''slow'', Spec (Some ''npx'') (Some []))])) None
      (\<lambda>i n. if n = ''fs''
         then \<lparr>response = Connected [\<lparr>attr_name = Some ''ls'', attr_description = None,
                attr_parameters = None\<rparr>], close_raises = False\<rparr>
         else \<lparr>response = TimeoutError True, close_raises = False\<rparr>)
      (\<lambda>c. ''{'' # map fst c @ [''}'']) No_fault (Some ''old'')) =
     Inr [(''fs'', [\<lparr>schema_name = ''ls'', schema_description = [],
       schema_parameters = JObj []\<rparr>])] \<and>
   outcome (process_all_servers
      (Object (Dict [(''fs'', Spec (Some ''npx'') (Some [])),
                     (''slow'', Spec (Some ''npx'') (Some []))])) None
      (\<lambda>i n. if n = ''fs''
         then \<lparr>script_opened = True, script_written = True, worker_started = True, still_running = False,
                heeds_terminate = True,
                result_file = Some (Some [\<lparr>schema_name = ''ls'', schema_description = [],
                  schema_parameters = JObj []\<rparr>])\<rparr>
         else \<lparr>script_opened = True, script_written = True, worker_started = True, still_running = True,
                heeds_terminate = False, result_file = None\<rparr>)
      (\<lambda>c. ''{'' # map fst c @ [''}'']) No_fault (Some ''old'')) =
     Inr [(''fs'', [\<lparr>schema_name = ''ls'', schema_description = [],
       schema_parameters = JObj []\<rparr>])] \<and>
   [\<lparr>schema_name = ''ls'', schema_description = [], schema_parameters = JObj []\<rparr>] \<noteq> [] \<and>
   ''slow'' \<notin> fst ` set [(''fs'', [\<lparr>schema_name = ''ls'', schema_description = [],
       schema_parameters = JObj []\<rparr>])] \<and>
   cache_after (initialize_mcp_servers
      (Object (Dict [(''fs'', Spec (Some ''npx'') (Some [])),
                     (''slow'', Spec (Some ''npx'') (Some []))])) None
      (\<lambda>i n. if n = ''fs''
         then \<lparr>response = Connected [\<lparr>attr_name = Some ''ls'', attr_description = None,
                attr_parameters = None\<rparr>], close_raises = False\<rparr>
         else \<lparr>response = TimeoutError True, close_raises = False\<rparr>)
      (\<lambda>c. ''{'' # map fst c @ [''}'']) No_fault (Some ''old'')) = Some ''{fs}'' \<and>
   cache_after (process_all_servers
      (Object (Dict [(''fs'', Spec (Some ''npx'') (Some [])),
                     (''slow'', Spec (Some ''npx'') (Some []))])) None
      (\<lambda>i n. if n = ''fs''
         then \<lparr>script_opened = True, script_written = True, worker_started = True, still_running = False,
                heeds_terminate = True,
                result_file = Some (Some [\<lparr>schema_name = ''ls'', schema_description = [],
                  schema_parameters = JObj []\<rparr>])\<rparr>
         else \<lparr>script_opened = True, script_written = True, worker_started = True, still_running = True,
                heeds_terminate = False, result_file = None\<rparr>)
      (\<lambda>c. ''{'' # map fst c @ [''}'']) No_fault (Some ''old'')) = Some ''{fs}''"
proof -
  let ?s = "\<lparr>schema_name = ''ls'', schema_description = [], schema_parameters = JObj []\<rparr>"
  let ?m = "[(''fs'', Spec (Some ''npx'') (Some [])),
             (''slow'', Spec (Some ''npx'') (Some []))]"
  let ?cfg = "Object (Dict ?m)"
  let ?env = "\<lambda>(i::nat) n. if n = ''fs''
         then \<lparr>response = Connected [\<lparr>attr_name = Some ''ls'', attr_description = None,
                attr_parameters = None\<rparr>], close_raises = False\<rparr>
         else \<lparr>response = TimeoutError True, close_raises = False\<rparr>"
  let ?env' = "\<lambda>(i::nat) n. if n = ''fs''
         then \<lparr>script_opened = True, script_written = True, worker_started = True, still_running = False,
                heeds_terminate = True, result_file = Some (Some [?s])\<rparr>
         else \<lparr>script_opened = True, script_written = True, worker_started = True, still_running = True,
                heeds_terminate = False, result_file = None\<rparr>"
  let ?dumps = "\<lambda>c :: tool_schema tool_cache. ''{'' # map fst c @ [''}'']"
  let ?r = "initialize_mcp_servers ?cfg None ?env ?dumps No_fault (Some ''old'')"
  let ?r' = "process_all_servers ?cfg None ?env' ?dumps No_fault (Some ''old'')"
  have o: "outcome ?r = Inr [(''fs'', [?s])]"
    by code_simp
  have o': "outcome ?r' = Inr [(''fs'', [?s])]"
    by code_simp
  have m: "(''fs'', [?s]) \<in> set [(''fs'', [?s])]" by simp
  have z: "\<forall>i ts. response (?env i ''slow'') = Connected ts \<and> \<not> close_raises (?env i ''slow'') \<longrightarrow>
      tool_schemas ts = []"
    by simp
  have z': "\<forall>i ts. result_file (?env' i ''slow'') = Some (Some ts) \<longrightarrow> ts = []" by simp
  have mc: "mcpServers ?cfg = Inr (Dict ?m)" by (simp add: mcpServers_def)
  have rs: "resolve (Dict ?m) None = Inr [''fs'', ''slow'']" by (simp add: resolve_def keys_def)
  have l: "\<forall>n c. map_of ?m n = Some c \<longrightarrow> (\<exists>p. connection_params c = Inr p)"
    by (simp add: connection_params_def)
  have w: "\<forall>i n. script_opened (?env' i n) \<and> script_written (?env' i n) \<and>
      worker_started (?env' i n)"
    by simp
  note t = cache_values_nonempty [where config = ?cfg and server_names = None and env = ?env
      and dumps = ?dumps and fault = No_fault and old = "Some ''old''"
      and cache = "[(''fs'', [?s])]" and env' = ?env' and dumps' = ?dumps
      and cache' = "[(''fs'', [?s])]" and m = ?m and names = "[''fs'', ''slow'']"
      and name = "''fs''" and tools = "[?s]" and name' = "''fs''" and tools' = "[?s]"]
  note u = cache_values_nonempty [where config = ?cfg and server_names = None and env = ?env
      and dumps = ?dumps and fault = No_fault and old = "Some ''old''"
      and cache = "[(''fs'', [?s])]" and env' = ?env' and dumps' = ?dumps
      and cache' = "[(''fs'', [?s])]" and m = ?m and names = "[''fs'', ''slow'']"
      and name = "''slow''" and tools = "[?s]" and name' = "''slow''" and tools' = "[?s]"]
  note a = t [THEN conjunct1, THEN mp, OF o]
  note b = t [THEN conjunct2, THEN conjunct2, THEN conjunct2, THEN conjunct1, THEN mp, OF o']
  from a [THEN conjunct2, THEN conjunct1, THEN mp, OF m]
  have 1: "[?s] \<noteq> []" by (rule conjunct1)
  from u [THEN conjunct1, THEN mp, OF o, THEN conjunct2, THEN conjunct2, THEN conjunct1,
      THEN mp, OF z]
  have 2: "''slow'' \<notin> fst ` set [(''fs'', [?s])]" .
  have s: "save_report ?r = Some INFO"
    using t [THEN conjunct2, THEN conjunct2, THEN conjunct1] mc rs by simp
  have s': "save_report ?r' = Some INFO"
    using t [THEN conjunct2, THEN conjunct2, THEN conjunct2, THEN conjunct2, THEN conjunct2]
      mc rs l w
    by simp
  from a [THEN conjunct2, THEN conjunct2, THEN conjunct2] s
  have "cache_after ?r = Some (concat (?dumps [(''fs'', [?s])]))" by simp
  then have 3: "cache_after ?r = Some ''{fs}''" by simp
  from b [THEN conjunct2, THEN conjunct2, THEN conjunct2] s'
  have "cache_after ?r' = Some (concat (?dumps [(''fs'', [?s])]))" by simp
  then have 4: "cache_after ?r' = Some ''{fs}''" by simp
  from o o' 1 2 3 4 show ?thesis by (intro conjI)
qed

text \<open>
  Claim C10. When the configuration is readable as an object or replaced by the empty
  one, and the resolved list of provider names is empty (no server is configured, or
  names were requested and none of them is found in the configuration), either
  preparation run returns the empty mapping and never comes to the save: the only
  content of the cache file during the run, and its content afterwards, is the content
  before the run.
\<close>

theorem empty_resolution_returns_early:
  assumes "mcpServers config = Inr v" and "resolve v server_names = Inr []"
  shows "initialize_mcp_servers config server_names env dumps fault old =
           \<lparr>outcome = Inr [], cache_trace = [old], save_report = None\<rparr> \<and>
         process_all_servers config server_names env' dumps' fault old =
           \<lparr>outcome = Inr [], cache_trace = [old], save_report = None\<rparr> \<and>
         cache_after (initialize_mcp_servers config server_names env dumps fault old) = old \<and>
         cache_after (process_all_servers config server_names env' dumps' fault old) = old \<and>
         (v = Dict [] \<or>
          (\<exists>n ns. server_names = Some (n # ns) \<and>
             (\<forall>x\<in>set (n # ns). contains v x = Inr False))) \<and>
         (\<forall>servers. v = Dict servers \<longrightarrow>
            servers = [] \<or>
            (\<exists>n ns. server_names = Some (n # ns) \<and> set (n # ns) \<inter> fst ` set servers = {}))"
proof -
  have 1: "initialize_mcp_servers config server_names env dumps fault old =
           \<lparr>outcome = Inr [], cache_trace = [old], save_report = None\<rparr>"
    using assms by (simp add: initialize_mcp_servers_def)
  have 2: "process_all_servers config server_names env' dumps' fault old =
           \<lparr>outcome = Inr [], cache_trace = [old], save_report = None\<rparr>"
    using assms by (simp add: process_all_servers_def)
  have 3: "v = Dict [] \<or>
          (\<exists>n ns. server_names = Some (n # ns) \<and>
             (\<forall>x\<in>set (n # ns). contains v x = Inr False))"
    using assms(2) by (rule resolve_empty)
  have 4: "servers = [] \<or>
      (\<exists>n ns. server_names = Some (n # ns) \<and> set (n # ns) \<inter> fst ` set servers = {})"
    if d: "v = Dict servers" for servers
  proof (cases "servers = []")
    case True
    then show ?thesis by simp
  next
    case False
    with 3 d obtain n ns where s: "server_names = Some (n # ns)"
      and a: "\<forall>x\<in>set (n # ns). contains (Dict servers) x = Inr False"
      by auto
    from a have "\<forall>x\<in>set (n # ns). x \<notin> fst ` set servers"
      by (simp only: contains_dict_False)
    then have "set (n # ns) \<inter> fst ` set servers = {}" by blast
    with s show ?thesis by blast
  qed
  have 5: "cache_after (initialize_mcp_servers config server_names env dumps fault old) = old"
    unfolding 1 by (simp add: cache_after_def)
  have 6: "cache_after (process_all_servers config server_names env' dumps' fault old) = old"
    unfolding 2 by (simp add: cache_after_def)
  from 1 2 3 4 5 6 show ?thesis by blast
qed

theorem empty_resolution_returns_early_witness:
  "mcpServers (Object (Dict [(''fs'', Spec (Some ''npx'') (Some []))])) =
     Inr (Dict [(''fs'', Spec (Some ''npx'') (Some []))]) \<and>
   resolve (Dict [(''fs'', Spec (Some ''npx'') (Some []))]) (Some [''github'']) = Inr [] \<and>
   process_all_servers (Object (Dict [(''fs'', Spec (Some ''npx'') (Some []))]))
     (Some [''github''])
     (\<lambda>i n. \<lparr>script_opened = True, script_written = True, worker_started = True, still_running = False,
        heeds_terminate = True, result_file = (None :: tool_schema list option option)\<rparr>)
     (\<lambda>c. [''{}'']) No_fault (Some ''old'') =
     \<lparr>outcome = Inr [], cache_trace = [Some ''old''], save_report = None\<rparr> \<and>
   cache_after (initialize_mcp_servers (Object (Dict [(''fs'', Spec (Some ''npx'') (Some []))]))
     (Some [''github''])
     (\<lambda>i n. \<lparr>response = Refused, close_raises = False\<rparr>) (\<lambda>c. [''{}'']) No_fault
     (Some ''old'')) = Some ''old''"
proof -
  let ?m = "Dict [(''fs'', Spec (Some ''npx'') (Some []))]"
  have m: "mcpServers (Object ?m) = Inr ?m"
    by (simp add: mcpServers_def)
  have n: "resolve ?m (Some [''github'']) = Inr []"
    by (simp add: resolve_def contains_def)
  from empty_resolution_returns_early [OF m n,
      of "\<lambda>i n. \<lparr>response = Refused, close_raises = False\<rparr>" "\<lambda>c. [''{}'']" No_fault
      "Some ''old''"
      "\<lambda>i n. \<lparr>script_opened = True, script_written = True, worker_started = True, still_running = False,
        heeds_terminate = True, result_file = (None :: tool_schema list option option)\<rparr>"
      "\<lambda>c. [''{}'']"]
    m n
  show ?thesis by blast
qed

text \<open>
  Claim C4 as stated fails. With an encoder that writes an opening brace, the provider
  names and a closing brace: a dump that fails after the first piece leaves the file
  holding the brace alone, neither the earlier content nor the new one; and a dump that
  completes takes the file through the empty content and two partial contents.
\<close>

theorem cache_write_not_atomic_counterexample:
  "cache_trace (initialize_mcp_servers
      (Object (Dict [(''fs'', Spec (Some ''npx'') (Some []))])) None
      (\<lambda>i n. \<lparr>response = Connected [\<lparr>attr_name = Some ''ls'', attr_description = None,
         attr_parameters = None\<rparr>], close_raises = False\<rparr>)
      (\<lambda>c. ''{'' # map fst c @ [''}'']) (Dump_fails 1) (Some ''old'')) =
     [Some ''old'', Some '''', Some ''{''] \<and>
   cache_trace (process_all_servers
      (Object (Dict [(''fs'', Spec (Some ''npx'') (Some []))])) None
      (\<lambda>i n. \<lparr>script_opened = True, script_written = True, worker_started = True, still_running = False,
         heeds_terminate = True,
         result_file = Some (Some [\<lparr>schema_name = ''ls'', schema_description = [],
           schema_parameters = JObj []\<rparr>])\<rparr>)
      (\<lambda>c. ''{'' # map fst c @ [''}'']) No_fault (Some ''old'')) =
     [Some ''old'', Some '''', Some ''{'', Some ''{fs'', Some ''{fs}'']"
  by code_simp

text \<open>
  Claim C4, amended. Saving the cache is a write in place. A run that comes to the
  save returns the mapping whatever happens to the file, and the message about the save
  is an information when the save completed and an error when it failed. If the file
  cannot be opened, it is left as it was. Otherwise it is emptied first, and every
  content it has from then on is the concatenation of the first pieces of the new
  encoding: a dump that fails after \<open>k\<close> pieces leaves those \<open>k\<close> pieces in the
  file, and a dump that completes leaves the full new encoding. A run that does not come
  to the save, because it returns early or raises, leaves the file untouched, and a run
  that raises never comes to the save. \<open>initialize_mcp_servers\<close> comes to the save
  whenever the configuration's \<open>mcpServers\<close> is a dictionary and some provider is
  resolved; \<open>process_all_servers\<close> does when moreover every entry has \<open>command\<close>
  and \<open>args\<close>, every temporary script could be written and every worker could be
  started.
\<close>

theorem cache_written_in_place:
  "(save_report (initialize_mcp_servers config server_names env dumps fault old) = None \<longrightarrow>
      cache_trace (initialize_mcp_servers config server_names env dumps fault old) = [old]) \<and>
   ((\<exists>e. outcome (initialize_mcp_servers config server_names env dumps fault old) = Inl e) \<longrightarrow>
      save_report (initialize_mcp_servers config server_names env dumps fault old) = None) \<and>
   (outcome (initialize_mcp_servers config server_names env dumps fault old) = Inr cache \<and>
    save_report (initialize_mcp_servers config server_names env dumps fault old) \<noteq> None \<longrightarrow>
      save_report (initialize_mcp_servers config server_names env dumps fault old) =
        Some (if fault = No_fault then INFO else ERROR) \<and>
      (fault = No_fault \<longrightarrow>
         cache_after (initialize_mcp_servers config server_names env dumps fault old) =
           Some (concat (dumps cache))) \<and>
      (fault = Open_fails \<longrightarrow>
         cache_trace (initialize_mcp_servers config server_names env dumps fault old) = [old]) \<and>
      (\<forall>k. fault = Dump_fails k \<longrightarrow>
         cache_after (initialize_mcp_servers config server_names env dumps fault old) =
           Some (concat (take k (dumps cache)))) \<and>
      (fault \<noteq> Open_fails \<longrightarrow>
         cache_trace (initialize_mcp_servers config server_names env dumps fault old) ! 1 =
           Some []) \<and>
      (\<forall>c\<in>set (tl (cache_trace
            (initialize_mcp_servers config server_names env dumps fault old))).
         \<exists>j. c = Some (concat (take j (dumps cache))))) \<and>
   (mcpServers config = Inr (Dict m) \<and> resolve (Dict m) server_names = Inr names \<and>
    names \<noteq> [] \<longrightarrow>
      save_report (initialize_mcp_servers config server_names env dumps fault old) \<noteq> None) \<and>
   (save_report (process_all_servers config server_names env' dumps' fault old) = None \<longrightarrow>
      cache_trace (process_all_servers config server_names env' dumps' fault old) = [old]) \<and>
   ((\<exists>e. outcome (process_all_servers config server_names env' dumps' fault old) = Inl e) \<longrightarrow>
      save_report (process_all_servers config server_names env' dumps' fault old) = None) \<and>
   (outcome (process_all_servers config server_names env' dumps' fault old) = Inr cache' \<and>
    save_report (process_all_servers config server_names env' dumps' fault old) \<noteq> None \<longrightarrow>
      save_report (process_all_servers config server_names env' dumps' fault old) =
        Some (if fault = No_fault then INFO else ERROR) \<and>
      (fault = No_fault \<longrightarrow>
         cache_after (process_all_servers config server_names env' dumps' fault old) =
           Some (concat (dumps' cache'))) \<and>
      (fault = Open_fails \<longrightarrow>
         cache_trace (process_all_servers config server_names env' dumps' fault old) = [old]) \<and>
      (\<forall>k. fault = Dump_fails k \<longrightarrow>
         cache_after (process_all_servers config server_names env' dumps' fault old) =
           Some (concat (take k (dumps' cache')))) \<and>
      (fault \<noteq> Open_fails \<longrightarrow>
         cache_trace (process_all_servers config server_names env' dumps' fault old) ! 1 =
           Some []) \<and>
      (\<forall>c\<in>set (tl (cache_trace
            (process_all_servers config server_names env' dumps' fault old))).
         \<exists>j. c = Some (concat (take j (dumps' cache'))))) \<and>
   (mcpServers config = Inr (Dict m) \<and> resolve (Dict m) server_names = Inr names \<and>
    names \<noteq> [] \<and>
    (\<forall>n c. map_of m n = Some c \<longrightarrow> (\<exists>p. connection_params c = Inr p)) \<and>
    (\<forall>i n. script_opened (env' i n) \<and> script_written (env' i n) \<and> worker_started (env' i n)) \<longrightarrow>
      save_report (process_all_servers config server_names env' dumps' fault old) \<noteq> None)"
proof -
  let ?r = "initialize_mcp_servers config server_names env dumps fault old"
  let ?r' = "process_all_servers config server_names env' dumps' fault old"
  have c: "(save_report ?r = None \<and> cache_trace ?r = [old] \<and>
            (outcome ?r = Inr [] \<or> (\<exists>e. outcome ?r = Inl e))) \<or>
           (\<exists>c. ?r = save_tool_cache c dumps fault old)"
    using initialize_mcp_servers_cases [of config server_names env dumps fault old] by blast
  have c': "(save_report ?r' = None \<and> cache_trace ?r' = [old] \<and>
            (outcome ?r' = Inr [] \<or> (\<exists>e. outcome ?r' = Inl e))) \<or>
           (\<exists>c. ?r' = save_tool_cache c dumps' fault old)"
    using process_all_servers_cases [of config server_names env' dumps' fault old] by blast
  from run_persisted [OF c]
  have p1: "save_report ?r = None \<longrightarrow> cache_trace ?r = [old]"
    and p2: "(\<exists>e. outcome ?r = Inl e) \<longrightarrow> save_report ?r = None"
    and p3: "outcome ?r = Inr cache \<and> save_report ?r \<noteq> None \<longrightarrow>
        save_report ?r = Some (if fault = No_fault then INFO else ERROR) \<and>
        cache_trace ?r = write_trace (dumps cache) fault old"
    by blast+
  from run_persisted [OF c']
  have q1: "save_report ?r' = None \<longrightarrow> cache_trace ?r' = [old]"
    and q2: "(\<exists>e. outcome ?r' = Inl e) \<longrightarrow> save_report ?r' = None"
    and q3: "outcome ?r' = Inr cache' \<and> save_report ?r' \<noteq> None \<longrightarrow>
        save_report ?r' = Some (if fault = No_fault then INFO else ERROR) \<and>
        cache_trace ?r' = write_trace (dumps' cache') fault old"
    by blast+
  have p4: "outcome ?r = Inr cache \<and> save_report ?r \<noteq> None \<longrightarrow>
      save_report ?r = Some (if fault = No_fault then INFO else ERROR) \<and>
      (fault = No_fault \<longrightarrow> cache_after ?r = Some (concat (dumps cache))) \<and>
      (fault = Open_fails \<longrightarrow> cache_trace ?r = [old]) \<and>
      (\<forall>k. fault = Dump_fails k \<longrightarrow> cache_after ?r = Some (concat (take k (dumps cache)))) \<and>
      (fault \<noteq> Open_fails \<longrightarrow> cache_trace ?r ! 1 = Some []) \<and>
      (\<forall>c\<in>set (tl (cache_trace ?r)). \<exists>j. c = Some (concat (take j (dumps cache))))"
  proof
    assume a: "outcome ?r = Inr cache \<and> save_report ?r \<noteq> None"
    with p3 have s: "save_report ?r = Some (if fault = No_fault then INFO else ERROR)"
      and t: "cache_trace ?r = write_trace (dumps cache) fault old"
      by blast+
    from s run_write_facts [OF t] show "save_report ?r = Some (if fault = No_fault then INFO else ERROR) \<and>
      (fault = No_fault \<longrightarrow> cache_after ?r = Some (concat (dumps cache))) \<and>
      (fault = Open_fails \<longrightarrow> cache_trace ?r = [old]) \<and>
      (\<forall>k. fault = Dump_fails k \<longrightarrow> cache_after ?r = Some (concat (take k (dumps cache)))) \<and>
      (fault \<noteq> Open_fails \<longrightarrow> cache_trace ?r ! 1 = Some []) \<and>
      (\<forall>c\<in>set (tl (cache_trace ?r)). \<exists>j. c = Some (concat (take j (dumps cache))))"
      by (rule conjI)
  qed
  have q4: "outcome ?r' = Inr cache' \<and> save_report ?r' \<noteq> None \<longrightarrow>
      save_report ?r' = Some (if fault = No_fault then INFO else ERROR) \<and>
      (fault = No_fault \<longrightarrow> cache_after ?r' = Some (concat (dumps' cache'))) \<and>
      (fault = Open_fails \<longrightarrow> cache_trace ?r' = [old]) \<and>
      (\<forall>k. fault = Dump_fails k \<longrightarrow> cache_after ?r' = Some (concat (take k (dumps' cache')))) \<and>
      (fault \<noteq> Open_fails \<longrightarrow> cache_trace ?r' ! 1 = Some []) \<and>
      (\<forall>c\<in>set (tl (cache_trace ?r')). \<exists>j. c = Some (concat (take j (dumps' cache'))))"
  proof
    assume a: "outcome ?r' = Inr cache' \<and> save_report ?r' \<noteq> None"
    with q3 have s: "save_report ?r' = Some (if fault = No_fault then INFO else ERROR)"
      and t: "cache_trace ?r' = write_trace (dumps' cache') fault old"
      by blast+
    from s run_write_facts [OF t] show "save_report ?r' = Some (if fault = No_fault then INFO else ERROR) \<and>
      (fault = No_fault \<longrightarrow> cache_after ?r' = Some (concat (dumps' cache'))) \<and>
      (fault = Open_fails \<longrightarrow> cache_trace ?r' = [old]) \<and>
      (\<forall>k. fault = Dump_fails k \<longrightarrow> cache_after ?r' = Some (concat (take k (dumps' cache')))) \<and>
      (fault \<noteq> Open_fails \<longrightarrow> cache_trace ?r' ! 1 = Some []) \<and>
      (\<forall>c\<in>set (tl (cache_trace ?r')). \<exists>j. c = Some (concat (take j (dumps' cache'))))"
      by (rule conjI)
  qed
  have p5: "mcpServers config = Inr (Dict m) \<and> resolve (Dict m) server_names = Inr names \<and>
      names \<noteq> [] \<longrightarrow> save_report ?r \<noteq> None"
  proof
    assume "mcpServers config = Inr (Dict m) \<and> resolve (Dict m) server_names = Inr names \<and>
      names \<noteq> []"
    then obtain c where "?r = save_tool_cache c dumps fault old"
      using initialize_mcp_servers_saves [of config m server_names names env dumps fault old]
      by blast
    then show "save_report ?r \<noteq> None" by (simp add: save_tool_cache_def)
  qed
  have q5: "mcpServers config = Inr (Dict m) \<and> resolve (Dict m) server_names = Inr names \<and>
      names \<noteq> [] \<and>
      (\<forall>n c. map_of m n = Some c \<longrightarrow> (\<exists>p. connection_params c = Inr p)) \<and>
      (\<forall>i n. script_opened (env' i n) \<and> script_written (env' i n) \<and> worker_started (env' i n)) \<longrightarrow>
      save_report ?r' \<noteq> None"
  proof
    assume "mcpServers config = Inr (Dict m) \<and> resolve (Dict m) server_names = Inr names \<and>
      names \<noteq> [] \<and>
      (\<forall>n c. map_of m n = Some c \<longrightarrow> (\<exists>p. connection_params c = Inr p)) \<and>
      (\<forall>i n. script_opened (env' i n) \<and> script_written (env' i n) \<and> worker_started (env' i n))"
    then obtain c where "?r' = save_tool_cache c dumps' fault old"
      using process_all_servers_saves [of config m server_names names env' dumps' fault old]
      by blast
    then show "save_report ?r' \<noteq> None" by (simp add: save_tool_cache_def)
  qed
  from p1 p2 p4 p5 q1 q2 q4 q5 show ?thesis by (intro conjI)
qed

theorem cache_written_in_place_witness:
  "cache_after (initialize_mcp_servers
      (Object (Dict [(''fs'', Spec (Some ''npx'') (Some []))])) None
      (\<lambda>i n. \<lparr>response = Connected [\<lparr>attr_name = Some ''ls'', attr_description = None,
         attr_parameters = None\<rparr>], close_raises = False\<rparr>)
      (\<lambda>c. ''{'' # map fst c @ [''}'']) No_fault (Some ''old'')) = Some ''{fs}'' \<and>
   cache_after (initialize_mcp_servers
      (Object (Dict [(''fs'', Spec (Some ''npx'') (Some []))])) None
      (\<lambda>i n. \<lparr>response = Connected [\<lparr>attr_name = Some ''ls'', attr_description = None,
         attr_parameters = None\<rparr>], close_raises = False\<rparr>)
      (\<lambda>c. ''{'' # map fst c @ [''}'']) (Dump_fails 2) (Some ''old'')) = Some ''{fs'' \<and>
   save_report (initialize_mcp_servers
      (Object (Dict [(''fs'', Spec (Some ''npx'') (Some []))])) None
      (\<lambda>i n. \<lparr>response = Connected [\<lparr>attr_name = Some ''ls'', attr_description = None,
         attr_parameters = None\<rparr>], close_raises = False\<rparr>)
      (\<lambda>c. ''{'' # map fst c @ [''}'']) (Dump_fails 2) (Some ''old'')) = Some ERROR \<and>
   cache_trace (initialize_mcp_servers
      (Object (Dict [(''fs'', Spec (Some ''npx'') (Some []))])) None
      (\<lambda>i n. \<lparr>response = Connected [\<lparr>attr_name = Some ''ls'', attr_description = None,
         attr_parameters = None\<rparr>], close_raises = False\<rparr>)
      (\<lambda>c. ''{'' # map fst c @ [''}'']) Open_fails (Some ''old'')) = [Some ''old''] \<and>
   outcome (process_all_servers
      (Object (Dict [(''fs'', Spec None (Some []))])) None
      (\<lambda>i n. \<lparr>script_opened = True, script_written = True, worker_started = True, still_running = False,
         heeds_terminate = True,
         result_file = Some (Some [\<lparr>schema_name = ''ls'', schema_description = [],
           schema_parameters = JObj []\<rparr>])\<rparr>)
      (\<lambda>c. ''{'' # map fst c @ [''}'']) No_fault (Some ''old'')) = Inl KeyError \<and>
   cache_trace (process_all_servers
      (Object (Dict [(''fs'', Spec None (Some []))])) None
      (\<lambda>i n. \<lparr>script_opened = True, script_written = True, worker_started = True, still_running = False,
         heeds_terminate = True,
         result_file = Some (Some [\<lparr>schema_name = ''ls'', schema_description = [],
           schema_parameters = JObj []\<rparr>])\<rparr>)
      (\<lambda>c. ''{'' # map fst c @ [''}'']) No_fault (Some ''old'')) = [Some ''old''] \<and>
   cache_after (process_all_servers
      (Object (Dict [(''fs'', Spec (Some ''npx'') (Some []))])) None
      (\<lambda>i n. \<lparr>script_opened = True, script_written = True, worker_started = True, still_running = False,
         heeds_terminate = True,
         result_file = Some (Some [\<lparr>schema_name = ''ls'', schema_description = [],
           schema_parameters = JObj []\<rparr>])\<rparr>)
      (\<lambda>c. ''{'' # map fst c @ [''}'']) No_fault (Some ''old'')) = Some ''{fs}''"
proof -
  let ?s = "\<lparr>schema_name = ''ls'', schema_description = [], schema_parameters = JObj []\<rparr>"
  let ?m = "[(''fs'', Spec (Some ''npx'') (Some []))]"
  let ?bad = "Object (Dict [(''fs'', Spec None (Some []))])"
  let ?env = "\<lambda>(i::nat) (n::string).
      \<lparr>response = Connected [\<lparr>attr_name = Some ''ls'', attr_description = None,
         attr_parameters = None\<rparr>], close_raises = False\<rparr>"
  let ?env' = "\<lambda>(i::nat) (n::string).
      \<lparr>script_opened = True, script_written = True, worker_started = True, still_running = False,
         heeds_terminate = True, result_file = Some (Some [?s])\<rparr>"
  let ?dumps = "\<lambda>c :: tool_schema tool_cache. ''{'' # map fst c @ [''}'']"
  let ?r = "\<lambda>fault. initialize_mcp_servers (Object (Dict ?m)) None ?env ?dumps fault
      (Some ''old'')"
  let ?r' = "\<lambda>cfg. process_all_servers cfg None ?env' ?dumps No_fault (Some ''old'')"
  let ?c = "[(''fs'', [?s])]"
  have m: "mcpServers (Object (Dict ?m)) = Inr (Dict ?m)" by (simp add: mcpServers_def)
  have n: "resolve (Dict ?m) None = Inr [''fs'']" by (simp add: resolve_def keys_def)
  have l: "\<forall>n c. map_of ?m n = Some c \<longrightarrow> (\<exists>p. connection_params c = Inr p)"
    by (simp add: connection_params_def)
  have w: "\<forall>i n. script_opened (?env' i n) \<and> script_written (?env' i n) \<and> worker_started (?env' i n)" by simp
  have o: "outcome (?r fault) = Inr ?c" for fault
    by (simp add: initialize_mcp_servers_def mcpServers_def resolve_def keys_def getitem_def
        Let_def prioritized_servers_def high_priority_def medium_priority_def
        connect_to_mcp_server_def connection_params_def entered_def aclose_def tool_schemas_def
        to_schema_def List.map_filter_simps save_tool_cache_def)
  have o': "outcome (?r' (Object (Dict ?m))) = Inr ?c" by code_simp
  have b: "outcome (?r' ?bad) = Inl KeyError" by code_simp
  note t = cache_written_in_place [of _ None ?env ?dumps _ "Some ''old''" ?c ?m "[''fs'']"
      ?env' ?dumps ?c]
  have s: "save_report (?r fault) \<noteq> None" for fault
    using t [of "Object (Dict ?m)" fault, THEN conjunct2, THEN conjunct2, THEN conjunct2,
        THEN conjunct1] m n
    by simp
  note f = t [of "Object (Dict ?m)", THEN conjunct2, THEN conjunct2, THEN conjunct1, THEN mp,
      OF conjI, OF o s]
  from f [of No_fault, THEN conjunct2, THEN conjunct1]
  have "cache_after (?r No_fault) = Some (concat (?dumps ?c))" by simp
  then have 1: "cache_after (?r No_fault) = Some ''{fs}''" by simp
  from f [of "Dump_fails 2", THEN conjunct2, THEN conjunct2, THEN conjunct2, THEN conjunct1]
  have "cache_after (?r (Dump_fails 2)) = Some (concat (take 2 (?dumps ?c)))" by simp
  then have 2: "cache_after (?r (Dump_fails 2)) = Some ''{fs''" by simp
  from f [of "Dump_fails 2", THEN conjunct1]
  have 3: "save_report (?r (Dump_fails 2)) = Some ERROR" by simp
  from f [of Open_fails, THEN conjunct2, THEN conjunct2, THEN conjunct1]
  have 4: "cache_trace (?r Open_fails) = [Some ''old'']" by simp
  have "save_report (?r' ?bad) = None"
    using t [of ?bad No_fault, THEN conjunct2, THEN conjunct2, THEN conjunct2, THEN conjunct2,
        THEN conjunct2, THEN conjunct1] b
    by simp
  with t [of ?bad No_fault, THEN conjunct2, THEN conjunct2, THEN conjunct2, THEN conjunct2,
        THEN conjunct1]
  have 5: "cache_trace (?r' ?bad) = [Some ''old'']" by simp
  have s': "save_report (?r' (Object (Dict ?m))) \<noteq> None"
    using t [of "Object (Dict ?m)" No_fault, THEN conjunct2, THEN conjunct2, THEN conjunct2,
        THEN conjunct2, THEN conjunct2, THEN conjunct2, THEN conjunct2] m n l w
    by simp
  from t [of "Object (Dict ?m)" No_fault, THEN conjunct2, THEN conjunct2, THEN conjunct2,
        THEN conjunct2, THEN conjunct2, THEN conjunct2, THEN conjunct1, THEN mp,
        OF conjI, OF o' s', THEN conjunct2, THEN conjunct1]
  have "cache_after (?r' (Object (Dict ?m))) = Some (concat (?dumps ?c))" by simp
  then have 6: "cache_after (?r' (Object (Dict ?m))) = Some ''{fs}''" by simp
  from 1 2 3 4 b 5 6 show ?thesis by (intro conjI)
qed

section \<open>The round trip of the cache\<close>




section \<open>Facts about the connectors\<close>

text \<open>
  Claim C2 asks that every connection attempt has torn down the provider's subprocess
  and channel when the connector returns. \<open>connect_to_mcp_server\<close> of
  \<open>prepare_mcp_tools.py\<close> does not on the path of an exception other than the timeout:
  for a provider that was started and then answered with a malformed handshake, or whose
  end made the library raise, the connector returns the empty list with the subprocess
  still held by the stack, whether or not closing would have raised. The timeout path and
  the success path of the same function leave nothing on the stack, and the parent side
  of \<open>prepare_safe.py\<close> never returns with its worker running.
\<close>

theorem connect_leaves_stack_open:
  "still_open (connect_to_mcp_server ''notes'' (Spec (Some command) (Some args))
      \<lparr>response = ProtocolError, close_raises = c\<rparr>) = [''notes''] \<and>
   still_open (connect_to_mcp_server ''notes'' (Spec (Some command) (Some args))
      \<lparr>response = Terminated, close_raises = c\<rparr>) = [''notes''] \<and>
   returned (connect_to_mcp_server ''notes'' (Spec (Some command) (Some args))
      \<lparr>response = ProtocolError, close_raises = c\<rparr>) = [] \<and>
   still_open (connect_to_mcp_server ''notes'' (Spec (Some command) (Some args))
      \<lparr>response = TimeoutError True, close_raises = False\<rparr>) = [] \<and>
   still_open (connect_to_mcp_server ''notes'' (Spec (Some command) (Some args))
      \<lparr>response = Connected tools, close_raises = False\<rparr>) = [] \<and>
   (case connect_to_mcp_server_safe server_config obs of
      Inl e \<Rightarrow> True
    | Inr res \<Rightarrow> worker res \<noteq> Running)"
  by (simp add: connect_to_mcp_server_def connect_to_mcp_server_safe_def connection_params_def
      entered_def aclose_def Let_def split: option.split sum.split)

text \<open>
  Claim C5 as stated fails: what the connector returns after a timeout is what it
  returns after a refusal, after a protocol error, and after a success with no tools;
  and the isolated connector returns the same list for a worker that ran into the
  deadline without a result file as for a result file holding no tools.
\<close>

theorem connect_failures_alike_counterexample:
  "returned (connect_to_mcp_server ''notes'' (Spec (Some ''npx'') (Some []))
      \<lparr>response = TimeoutError True, close_raises = False\<rparr>) =
     returned (connect_to_mcp_server ''notes'' (Spec (Some ''npx'') (Some []))
       \<lparr>response = Refused, close_raises = False\<rparr>) \<and>
   returned (connect_to_mcp_server ''notes'' (Spec (Some ''npx'') (Some []))
      \<lparr>response = TimeoutError True, close_raises = False\<rparr>) =
     returned (connect_to_mcp_server ''notes'' (Spec (Some ''npx'') (Some []))
       \<lparr>response = ProtocolError, close_raises = False\<rparr>) \<and>
   returned (connect_to_mcp_server ''notes'' (Spec (Some ''npx'') (Some []))
      \<lparr>response = TimeoutError True, close_raises = False\<rparr>) =
     returned (connect_to_mcp_server ''notes'' (Spec (Some ''npx'') (Some []))
       \<lparr>response = Connected [], close_raises = False\<rparr>) \<and>
   map_sum id tools_read (connect_to_mcp_server_safe (Spec (Some ''npx'') (Some []))
     \<lparr>script_opened = True, script_written = True, worker_started = True, still_running = True,
      heeds_terminate = True, result_file = (None :: tool_schema list option option)\<rparr>) =
     map_sum id tools_read (connect_to_mcp_server_safe (Spec (Some ''npx'') (Some []))
       \<lparr>script_opened = True, script_written = True, worker_started = True, still_running = False,
        heeds_terminate = True, result_file = Some (Some ([] :: tool_schema list))\<rparr>) \<and>
   map_sum id tools_read (connect_to_mcp_server_safe (Spec (Some ''npx'') (Some []))
     \<lparr>script_opened = True, script_written = True, worker_started = True, still_running = True,
      heeds_terminate = True, result_file = (None :: tool_schema list option option)\<rparr>) =
     Inr []"
  by (simp add: connect_to_mcp_server_def connect_to_mcp_server_safe_def connection_params_def
      entered_def aclose_def Let_def tool_schemas_def List.map_filter_simps)

text \<open>
  Claim C5, amended. \<open>connect_to_mcp_server\<close> of \<open>prepare_mcp_tools.py\<close> always
  returns a plain list: the schemas of the tools when the session was established and
  closing it did not raise, and the empty list in every other case: an entry without
  \<open>command\<close> or \<open>args\<close>, a timeout, a refusal, a protocol error, an unexpected
  end, and a close that raises after a success. The cases differ only in what is logged:
  a warning is logged exactly on a timeout; the last message is an information exactly
  after a success whose close did not raise, a warning exactly after a timeout whose
  close did not raise, and an error in every other case: an entry without \<open>command\<close>
  or \<open>args\<close>, a refusal, a protocol error, an unexpected end, or a close that
  raised. The isolated connector of
  \<open>prepare_safe.py\<close> raises instead of returning when its temporary script cannot be
  opened or written, when the entry lacks \<open>command\<close> or \<open>args\<close>, and when its
  worker cannot be started; once the worker is started it returns the list read from the result file,
  and the empty list when that file is absent or unreadable.
\<close>

theorem connect_returns_plain_list:
  "returned (connect_to_mcp_server server_name server_config a) =
     (case connection_params server_config of
        Inl e \<Rightarrow> []
      | Inr params \<Rightarrow>
          (case response a of
             Connected tools \<Rightarrow> if close_raises a then [] else tool_schemas tools
           | TimeoutError started \<Rightarrow> []
           | Refused \<Rightarrow> []
           | ProtocolError \<Rightarrow> []
           | Terminated \<Rightarrow> [])) \<and>
   (WARNING \<in> set (logged (connect_to_mcp_server server_name server_config a)) \<longleftrightarrow>
      (\<exists>p started. connection_params server_config = Inr p \<and> response a = TimeoutError started)) \<and>
   (last (logged (connect_to_mcp_server server_name server_config a)) = INFO \<longleftrightarrow>
      (\<exists>p tools. connection_params server_config = Inr p \<and> response a = Connected tools \<and>
         close_raises a = False)) \<and>
   (last (logged (connect_to_mcp_server server_name server_config a)) = WARNING \<longleftrightarrow>
      (\<exists>p started. connection_params server_config = Inr p \<and> response a = TimeoutError started \<and>
         close_raises a = False)) \<and>
   (last (logged (connect_to_mcp_server server_name server_config a)) = ERROR \<longleftrightarrow>
      (\<exists>e. connection_params server_config = Inl e) \<or>
      response a = Refused \<or> response a = ProtocolError \<or> response a = Terminated \<or>
      (close_raises a \<and>
       ((\<exists>started. response a = TimeoutError started) \<or>
        (\<exists>tools. response a = Connected tools)))) \<and>
   map_sum id tools_read (connect_to_mcp_server_safe server_config obs) =
     (if script_opened obs
      then (case connection_params server_config of
              Inl e \<Rightarrow> Inl e
            | Inr params \<Rightarrow>
                if script_written obs \<and> worker_started obs
                then Inr (case result_file obs of
                            Some (Some tools) \<Rightarrow> tools | Some None \<Rightarrow> [] | None \<Rightarrow> [])
                else Inl OSError)
      else Inl OSError)"
proof -
  have 1: "returned (connect_to_mcp_server server_name server_config a) =
     (case connection_params server_config of
        Inl e \<Rightarrow> []
      | Inr params \<Rightarrow>
          (case response a of
             Connected tools \<Rightarrow> if close_raises a then [] else tool_schemas tools
           | TimeoutError started \<Rightarrow> []
           | Refused \<Rightarrow> []
           | ProtocolError \<Rightarrow> []
           | Terminated \<Rightarrow> []))"
    by (cases "connection_params server_config"; cases "response a")
      (simp_all add: connect_to_mcp_server_def aclose_def Let_def)
  have 2: "WARNING \<in> set (logged (connect_to_mcp_server server_name server_config a)) \<longleftrightarrow>
      (\<exists>p started. connection_params server_config = Inr p \<and> response a = TimeoutError started)"
    by (cases "connection_params server_config"; cases "response a")
      (auto simp: connect_to_mcp_server_def aclose_def Let_def)
  have 3: "last (logged (connect_to_mcp_server server_name server_config a)) = INFO \<longleftrightarrow>
      (\<exists>p tools. connection_params server_config = Inr p \<and> response a = Connected tools \<and>
         close_raises a = False)"
    by (cases "connection_params server_config"; cases "response a")
      (auto simp: connect_to_mcp_server_def aclose_def Let_def)
  have 4: "last (logged (connect_to_mcp_server server_name server_config a)) = WARNING \<longleftrightarrow>
      (\<exists>p started. connection_params server_config = Inr p \<and> response a = TimeoutError started \<and>
         close_raises a = False)"
    by (cases "connection_params server_config"; cases "response a")
      (auto simp: connect_to_mcp_server_def aclose_def Let_def)
  have 5: "last (logged (connect_to_mcp_server server_name server_config a)) = ERROR \<longleftrightarrow>
      (\<exists>e. connection_params server_config = Inl e) \<or>
      response a = Refused \<or> response a = ProtocolError \<or> response a = Terminated \<or>
      (close_raises a \<and>
       ((\<exists>started. response a = TimeoutError started) \<or>
        (\<exists>tools. response a = Connected tools)))"
    by (cases "connection_params server_config"; cases "response a")
      (auto simp: connect_to_mcp_server_def aclose_def Let_def)
  have 6: "map_sum id tools_read (connect_to_mcp_server_safe server_config obs) =
     (if script_opened obs
      then (case connection_params server_config of
              Inl e \<Rightarrow> Inl e
            | Inr params \<Rightarrow>
                if script_written obs \<and> worker_started obs
                then Inr (case result_file obs of
                            Some (Some tools) \<Rightarrow> tools | Some None \<Rightarrow> [] | None \<Rightarrow> [])
                else Inl OSError)
      else Inl OSError)"
    by (cases "connection_params server_config")
      (simp_all add: connect_to_mcp_server_safe_def Let_def split: option.split)
  from 1 2 3 4 5 6 show ?thesis by (intro conjI)
qed

section \<open>Facts about the launcher\<close>











end
